theory Spec2Isabelle
  imports Main "HOL-Library.Word" "HOL-Library.Multiset" "HOL-Library.Code_Target_Numeral"
begin

unbundle bit_operations_syntax

section \<open>Go runtime and standard-library behaviour used by net-tui\<close>

text \<open>
  Strings are byte lists, as Go's \<open>len\<close> and slicing see them. Go's \<open>int\<close> is
  modelled by \<open>int\<close>: every \<open>int\<close> of the program is a slice length, a list
  index bounded by one, or a terminal dimension. In every state the program reaches the
  cursor lies between \<open>-1\<close> and the length of the active list and the stored offset
  is 0 (lemma \<open>reachable_invariant\<close>), so none of its sums and differences leaves the
  64-bit range. The fixed-width unsigned fields
  (\<open>uint32\<close> ports, socket types and families, \<open>uint64\<close> byte counters and
  interface flags) and the \<open>int32\<close> process ids are words.

  A runtime panic is a value: every function that can index or slice out of
  range returns \<open>panic + 'a\<close>.
\<close>

datatype panic = IndexOutOfRange | SliceBoundsOutOfRange

definition bindR :: "panic + 'a \<Rightarrow> ('a \<Rightarrow> panic + 'b) \<Rightarrow> panic + 'b" where
  "bindR r f = (case r of Inl e \<Rightarrow> Inl e | Inr v \<Rightarrow> f v)"

text \<open>\<open>%d\<close> of \<open>fmt\<close>: decimal digits, most significant first, a minus sign for
  negative values.\<close>

definition digitChar :: "nat \<Rightarrow> char" where
  "digitChar d = ''0123456789'' ! d"

fun showNat :: "nat \<Rightarrow> string" where
  "showNat n = (if n < 10 then [digitChar n] else showNat (n div 10) @ [digitChar (n mod 10)])"

declare showNat.simps [simp del]

definition showInt :: "int \<Rightarrow> string" where
  "showInt i = (if i < 0 then CHR ''-'' # showNat (nat (- i)) else showNat (nat i))"

text \<open>\<open>%-Ns\<close> and \<open>%-Nd\<close>: pad with spaces on the right up to width \<open>N\<close>. The
  width of a string operand is counted in runes by \<open>fmt\<close>; the rune counter is the
  first argument. Decimal digits are one byte each.\<close>

definition padRight :: "(string \<Rightarrow> nat) \<Rightarrow> nat \<Rightarrow> string \<Rightarrow> string" where
  "padRight runes w s = s @ replicate (w - runes s) CHR '' ''"

section \<open>Data types\<close>

text \<open>The display records of \<open>main.go\<close>. A nil slice and an empty slice are both
  the empty list.\<close>

record connection =
  proto :: string
  local :: string
  remote :: string
  state :: string
  pid :: "32 word"
  process :: string

record port =
  port :: "32 word"
  proto :: string
  addr :: string
  pid :: "32 word"
  process :: string

record iface =
  name :: string
  up :: bool
  addrs :: "string list"
  rx :: "64 word"
  tx :: "64 word"

record dataMsg =
  connections :: "connection list"
  ports :: "port list"
  interfaces :: "iface list"

text \<open>
  What the host libraries hand to the program (gopsutil's \<open>ConnectionStat\<close> and
  \<open>IOCountersStat\<close>, \<open>net.Interface\<close>), with the fields the program reads.
  \<open>Addrs\<close> is the result of \<open>ni.Addrs()\<close>, each address already rendered by
  \<open>String()\<close>.
\<close>

datatype error = Error string

record Addr =
  IP :: string
  Port :: "32 word"

record ConnectionStat =
  Family :: "32 word"
  Type :: "32 word"
  Laddr :: Addr
  Raddr :: Addr
  Status :: string
  Pid :: "32 word"

record Interface =
  Name :: string
  Flags :: "64 word"
  Addrs :: "error + string list"

record IOCountersStat =
  Name :: string
  BytesSent :: "64 word"
  BytesRecv :: "64 word"

definition FlagUp :: "64 word" where
  "FlagUp = 1"

definition FlagLoopback :: "64 word" where
  "FlagLoopback = 4"

text \<open>
  One acquisition pass sees the results of the calls it makes:
  \<open>psnet.Connections("all")\<close> is called once by \<open>fetchConnections\<close> and once more
  by \<open>fetchPorts\<close>, \<open>net.Interfaces()\<close> and \<open>psnet.IOCounters(true)\<close> by
  \<open>fetchInterfaces\<close>. \<open>IOCounters\<close> returns a list and an error, and the program
  drops the error. \<open>processName\<close> is \<open>process.NewProcess(pid)\<close> followed by
  \<open>Name()\<close>; \<open>None\<close> when either fails.
\<close>

record host =
  connectionsCall :: "error + ConnectionStat list"
  portsCall :: "error + ConnectionStat list"
  interfacesCall :: "error + Interface list"
  ioCountersCall :: "IOCountersStat list \<times> error option"
  processName :: "32 word \<Rightarrow> string option"

text \<open>
  The application state. \<open>tab\<close> is Go's \<open>type tab int\<close> with the constants
  \<open>tabConnections = 0\<close>, \<open>tabPorts = 1\<close>, \<open>tabInterfaces = 2\<close>.
\<close>

record model =
  tab :: int
  cursor :: int
  offset :: int
  width :: int
  height :: int
  connections :: "connection list"
  ports :: "port list"
  interfaces :: "iface list"

definition tabConnections :: int where
  "tabConnections = 0"

definition tabPorts :: int where
  "tabPorts = 1"

definition tabInterfaces :: int where
  "tabInterfaces = 2"

text \<open>
  What the renderer takes from outside the program: the \<open>Render\<close> method of each of
  the eight lipgloss styles of the variable \<open>styles\<close>, \<open>lipgloss.Width\<close>, and
  the rune counter \<open>fmt\<close> pads with.
\<close>

record libs =
  title :: "string \<Rightarrow> string"
  dim :: "string \<Rightarrow> string"
  header :: "string \<Rightarrow> string"
  selected :: "string \<Rightarrow> string"
  tabActive :: "string \<Rightarrow> string"
  tabInactive :: "string \<Rightarrow> string"
  stateUp :: "string \<Rightarrow> string"
  stateDown :: "string \<Rightarrow> string"
  lipglossWidth :: "string \<Rightarrow> int"
  runeCount :: "string \<Rightarrow> nat"

section \<open>Formatting helpers\<close>

text \<open>
  \<^verbatim>\<open>
  func truncate(s string, max int) string {
      if len(s) <= max { return s }
      if max <= 3 { return s[:max] }
      return s[:max-3] + "..."
  }
  \<close>
  \<open>s[:max]\<close> panics for a negative \<open>max\<close>; \<open>max \<le> len(s)\<close> holds on both
  slicing branches.
\<close>

definition truncate :: "string \<Rightarrow> int \<Rightarrow> panic + string" where
  "truncate s lim =
     (if int (length s) \<le> lim then Inr s
      else if lim \<le> 3 then
        (if lim < 0 then Inl SliceBoundsOutOfRange else Inr (take (nat lim) s))
      else Inr (take (nat (lim - 3)) s @ ''...''))"

text \<open>
  \<open>len\<close> and slicing count bytes. The characters of a UTF-8 text are its bytes that
  are not continuation bytes (\<open>10xxxxxx\<close>); in ASCII text every byte is a character.
  \<open>nihongo\<close> is a three-character text of nine bytes (U+65E5 U+672C U+8A9E).
\<close>

definition isContinuationByte :: "char \<Rightarrow> bool" where
  "isContinuationByte c = (128 \<le> (of_char c :: nat) \<and> (of_char c :: nat) < 192)"

definition utf8Chars :: "string \<Rightarrow> nat" where
  "utf8Chars s = length (filter (\<lambda>c. \<not> isContinuationByte c) s)"

definition isAscii :: "string \<Rightarrow> bool" where
  "isAscii s = (\<forall>c\<in>set s. (of_char c :: nat) < 128)"

definition nihongo :: string where
  "nihongo = [CHR 0xE6, CHR 0x97, CHR 0xA5, CHR 0xE6, CHR 0x9C, CHR 0xAC, CHR 0xE8, CHR 0xAA, CHR 0x9E]"

text \<open>
  \<^verbatim>\<open>
  func protoString(connType, family uint32) string {
      proto := "tcp"
      if connType == 2 { proto = "udp" }
      if family == 10 || family == 23 { proto += "6" }
      return proto
  }
  \<close>
\<close>

definition protoString :: "32 word \<Rightarrow> 32 word \<Rightarrow> string" where
  "protoString connType family =
     (let proto = (if connType = 2 then ''udp'' else ''tcp'')
      in if family = 10 \<or> family = 23 then proto @ ''6'' else proto)"

definition formatAddr :: "string \<Rightarrow> 32 word \<Rightarrow> string" where
  "formatAddr ip prt = (if ip = [] then ''*'' else ip) @ '':'' @ showNat (unat prt)"

text \<open>
  \<^verbatim>\<open>
  func formatBytes(b uint64) string {
      const unit = 1024
      if b < unit { return fmt.Sprintf("%d B", b) }
      div, exp := uint64(unit), 0
      for n := b / unit; n >= unit; n /= unit { div *= unit; exp++ }
      return fmt.Sprintf("%.1f %cB", float64(b)/float64(div), "KMGTPE"[exp])
  }
  \<close>
  The loop runs on \<open>uint64\<close> words. \<open>float64(x)\<close> of an unsigned integer is \<open>x\<close>
  rounded to 53 significant bits, ties to even; the result is again an integer and
  \<open>round53\<close> computes it. The divisor is a power of two (lemma \<open>float64_pow1024\<close>),
  so the quotient of the two floats is exact and is kept as numerator and
  denominator. \<open>%.1f\<close> prints the decimal nearest to the exact value of the float,
  ties to even, with one digit after the point. Indexing \<open>"KMGTPE"\<close> out of range
  panics.
\<close>

function formatBytes_loop :: "64 word \<Rightarrow> 64 word \<Rightarrow> nat \<Rightarrow> 64 word \<times> nat" where
  "formatBytes_loop n dv ex =
     (if 1024 \<le> n then formatBytes_loop (n div 1024) (dv * 1024) (ex + 1) else (dv, ex))"
  by pat_completeness auto
termination
  by (relation "measure (\<lambda>(n, dv, ex). unat n)")
     (auto simp: word_le_nat_alt unat_div)

declare formatBytes_loop.simps [simp del]

fun bitlen :: "nat \<Rightarrow> nat" where
  "bitlen n = (if n = 0 then 0 else Suc (bitlen (n div 2)))"

declare bitlen.simps [simp del]

definition roundHalfEven :: "nat \<Rightarrow> nat \<Rightarrow> nat" where
  "roundHalfEven n d =
     (let q = n div d; r = n mod d
      in if 2 * r < d then q else if d < 2 * r then q + 1 else if even q then q else q + 1)"

definition round53 :: "nat \<Rightarrow> nat" where
  "round53 n = (let e = bitlen n - 53 in roundHalfEven n (2 ^ e) * 2 ^ e)"

definition float64 :: "64 word \<Rightarrow> nat" where
  "float64 b = round53 (unat b)"

definition fmtF1 :: "nat \<Rightarrow> nat \<Rightarrow> string" where
  "fmtF1 n d =
     (let t = roundHalfEven (10 * n) d in showNat (t div 10) @ ''.'' @ showNat (t mod 10))"

definition formatBytes :: "64 word \<Rightarrow> panic + string" where
  "formatBytes b =
     (if b < 1024 then Inr (showNat (unat b) @ '' B'')
      else (case formatBytes_loop (b div 1024) 1024 0 of
              (dv, ex) \<Rightarrow>
                if ex < 6
                then Inr (fmtF1 (float64 b) (float64 dv) @ '' '' @ [''KMGTPE'' ! ex] @ ''B'')
                else Inl IndexOutOfRange))"

section \<open>Data fetching\<close>

text \<open>
  \<^verbatim>\<open>
  func getProcessName(pid int32, cache map[int32]string) string {
      if name, ok := cache[pid]; ok { return name }
      name := ""
      if p, err := process.NewProcess(pid); err == nil {
          if n, err := p.Name(); err == nil { name = n }
      }
      cache[pid] = name
      return name
  }
  \<close>
  The cache is mutated in place; the model returns it.
\<close>

definition getProcessName ::
  "(32 word \<Rightarrow> string option) \<Rightarrow> 32 word \<Rightarrow> (32 word \<rightharpoonup> string)
     \<Rightarrow> string \<times> (32 word \<rightharpoonup> string)" where
  "getProcessName lookup p cache =
     (case cache p of
        Some nm \<Rightarrow> (nm, cache)
      | None \<Rightarrow>
          (let nm = (case lookup p of Some n \<Rightarrow> n | None \<Rightarrow> [])
           in (nm, cache(p \<mapsto> nm))))"

text \<open>The body of the loop of \<open>fetchConnections\<close>, one raw connection at a time;
  entries with an empty status are skipped. \<open>c.Pid > 0\<close> compares an \<open>int32\<close>.\<close>

fun fetchConnections_loop ::
  "(32 word \<Rightarrow> string option) \<Rightarrow> ConnectionStat list \<Rightarrow> connection list
     \<Rightarrow> (32 word \<rightharpoonup> string) \<Rightarrow> connection list" where
  "fetchConnections_loop lookup [] result procCache = result"
| "fetchConnections_loop lookup (c # conns) result procCache =
     (if Status c = [] then fetchConnections_loop lookup conns result procCache
      else
        let conn = \<lparr> connection.proto = protoString (Type c) (Family c),
                     local = formatAddr (IP (Laddr c)) (Port (Laddr c)),
                     remote = formatAddr (IP (Raddr c)) (Port (Raddr c)),
                     state = Status c,
                     connection.pid = Pid c,
                     connection.process = [] \<rparr>
        in if 0 < sint (Pid c)
           then (case getProcessName lookup (Pid c) procCache of
                   (nm, procCache') \<Rightarrow>
                     fetchConnections_loop lookup conns
                       (result @ [conn\<lparr>connection.process := nm\<rparr>]) procCache')
           else fetchConnections_loop lookup conns (result @ [conn]) procCache)"

definition fetchConnections :: "host \<Rightarrow> connection list" where
  "fetchConnections h =
     (case connectionsCall h of
        Inl err \<Rightarrow> []
      | Inr conns \<Rightarrow> fetchConnections_loop (processName h) conns [] Map.empty)"

text \<open>
  \<open>fetchPorts\<close>: the key of the \<open>seen\<close> map is
  \<open>fmt.Sprintf("%d-%d", c.Laddr.Port, c.Type)\<close>; reading a missing key of a
  \<open>map[string]bool\<close> gives \<open>false\<close>.
  \<^verbatim>\<open>
  for _, c := range conns {
      if c.Status != "LISTEN" { continue }
      key := fmt.Sprintf("%d-%d", c.Laddr.Port, c.Type)
      if seen[key] { continue }
      seen[key] = true
      p := port{port: c.Laddr.Port, proto: protoString(c.Type, c.Family),
                addr: c.Laddr.IP, pid: c.Pid}
      if c.Pid > 0 { p.process = getProcessName(c.Pid, procCache) }
      result = append(result, p)
  }
  sort.Slice(result, func(i, j int) bool { return result[i].port < result[j].port })
  \<close>
  \<open>sort.Slice\<close> promises a permutation ordered by the comparison and nothing about
  the order of records with equal ports; the model sorts by insertion on the port
  number, and no theorem below depends on the order among equal ports.
\<close>

definition portKey :: "ConnectionStat \<Rightarrow> string" where
  "portKey c = showNat (unat (Port (Laddr c))) @ ''-'' @ showNat (unat (Type c))"

definition seenLookup :: "(string \<rightharpoonup> bool) \<Rightarrow> string \<Rightarrow> bool" where
  "seenLookup seen key = (case seen key of Some b \<Rightarrow> b | None \<Rightarrow> False)"

fun fetchPorts_loop ::
  "(32 word \<Rightarrow> string option) \<Rightarrow> ConnectionStat list \<Rightarrow> (string \<rightharpoonup> bool)
     \<Rightarrow> port list \<Rightarrow> (32 word \<rightharpoonup> string) \<Rightarrow> port list" where
  "fetchPorts_loop lookup [] seen result procCache = result"
| "fetchPorts_loop lookup (c # conns) seen result procCache =
     (if Status c \<noteq> ''LISTEN'' then fetchPorts_loop lookup conns seen result procCache
      else if seenLookup seen (portKey c)
      then fetchPorts_loop lookup conns seen result procCache
      else
        let seen' = seen(portKey c \<mapsto> True);
            p = \<lparr> port = Port (Laddr c),
                  port.proto = protoString (Type c) (Family c),
                  addr = IP (Laddr c),
                  port.pid = Pid c,
                  port.process = [] \<rparr>
        in if 0 < sint (Pid c)
           then (case getProcessName lookup (Pid c) procCache of
                   (nm, procCache') \<Rightarrow>
                     fetchPorts_loop lookup conns seen'
                       (result @ [p\<lparr>port.process := nm\<rparr>]) procCache')
           else fetchPorts_loop lookup conns seen' (result @ [p]) procCache)"

definition sortSlice_port :: "port list \<Rightarrow> port list" where
  "sortSlice_port result = sort_key port result"

definition fetchPorts :: "host \<Rightarrow> port list" where
  "fetchPorts h =
     (case portsCall h of
        Inl err \<Rightarrow> []
      | Inr conns \<Rightarrow>
          sortSlice_port (fetchPorts_loop (processName h) conns Map.empty [] Map.empty))"

text \<open>
  \<open>fetchInterfaces\<close>: the counters are indexed by interface name (a later entry of
  the same name overwrites an earlier one), loopback interfaces are skipped, a failing
  \<open>Addrs()\<close> leaves the address list empty and a missing counter leaves both
  counters zero.
\<close>

fun ioMap_loop ::
  "IOCountersStat list \<Rightarrow> (string \<rightharpoonup> IOCountersStat) \<Rightarrow> (string \<rightharpoonup> IOCountersStat)" where
  "ioMap_loop [] ioMap = ioMap"
| "ioMap_loop (c # counters) ioMap = ioMap_loop counters (ioMap(IOCountersStat.Name c \<mapsto> c))"

fun fetchInterfaces_loop ::
  "(string \<rightharpoonup> IOCountersStat) \<Rightarrow> Interface list \<Rightarrow> iface list \<Rightarrow> iface list" where
  "fetchInterfaces_loop ioMap [] result = result"
| "fetchInterfaces_loop ioMap (ni # netIfaces) result =
     (if Flags ni AND FlagLoopback \<noteq> 0 then fetchInterfaces_loop ioMap netIfaces result
      else
        let ifc = \<lparr> name = Interface.Name ni, up = (Flags ni AND FlagUp \<noteq> 0),
                    addrs = [], rx = 0, tx = 0 \<rparr>;
            ifc1 = (case Addrs ni of Inr as \<Rightarrow> ifc\<lparr>addrs := as\<rparr> | Inl err \<Rightarrow> ifc);
            ifc2 = (case ioMap (Interface.Name ni) of
                      Some io \<Rightarrow> ifc1\<lparr>rx := BytesRecv io, tx := BytesSent io\<rparr>
                    | None \<Rightarrow> ifc1)
        in fetchInterfaces_loop ioMap netIfaces (result @ [ifc2]))"

definition fetchInterfaces :: "host \<Rightarrow> iface list" where
  "fetchInterfaces h =
     (case interfacesCall h of
        Inl err \<Rightarrow> []
      | Inr netIfaces \<Rightarrow>
          fetchInterfaces_loop (ioMap_loop (fst (ioCountersCall h)) Map.empty) netIfaces [])"

definition fetchData :: "host \<Rightarrow> dataMsg" where
  "fetchData h = \<lparr> dataMsg.connections = fetchConnections h, dataMsg.ports = fetchPorts h,
                   dataMsg.interfaces = fetchInterfaces h \<rparr>"

section \<open>Navigation state machine\<close>

text \<open>
  The messages \<open>Update\<close> distinguishes: a key press (the string \<open>msg.String()\<close>), a
  window size, a tick, refreshed data, anything else. The commands it returns:
  none, \<open>tea.Quit\<close>, or the batch of \<open>fetchData\<close> and the next tick.
\<close>

datatype msg = KeyMsg string | WindowSizeMsg int int | TickMsg | DataMsg dataMsg | OtherMsg

datatype cmd = NoCmd | Quit | FetchAndTick

definition newModel :: model where
  "newModel = \<lparr> tab = tabConnections, cursor = 0, offset = 0, width = 0, height = 0,
                 model.connections = [], model.ports = [], model.interfaces = [] \<rparr>"

text \<open>Go's \<open>%\<close> on \<open>int\<close> truncates towards zero: the sign of the result is the
  sign of the dividend.\<close>

definition go_rem :: "int \<Rightarrow> int \<Rightarrow> int" where
  "go_rem a b = sgn a * (\<bar>a\<bar> mod \<bar>b\<bar>)"

definition listLen :: "model \<Rightarrow> int" where
  "listLen m =
     (if tab m = tabConnections then int (length (model.connections m))
      else if tab m = tabPorts then int (length (model.ports m))
      else if tab m = tabInterfaces then int (length (model.interfaces m))
      else 0)"

text \<open>
  \<^verbatim>\<open>
  func (m *model) clampCursor() {
      max := m.listLen() - 1
      if max < 0 { max = 0 }
      if m.cursor > max { m.cursor = max }
  }
  \<close>
\<close>

definition clampCursor :: "model \<Rightarrow> model" where
  "clampCursor m =
     (let mx = listLen m - 1;
          mx = (if mx < 0 then 0 else mx)
      in if cursor m > mx then m\<lparr>cursor := mx\<rparr> else m)"

definition handleKey :: "model \<Rightarrow> string \<Rightarrow> model \<times> cmd" where
  "handleKey m key =
     (if key = ''q'' \<or> key = ''ctrl+c'' then (m, Quit)
      else if key = ''tab'' \<or> key = ''l'' \<or> key = ''right''
      then (m\<lparr>tab := go_rem (tab m + 1) 3, cursor := 0, offset := 0\<rparr>, NoCmd)
      else if key = ''shift+tab'' \<or> key = ''h'' \<or> key = ''left''
      then (m\<lparr>tab := go_rem (tab m + 2) 3, cursor := 0, offset := 0\<rparr>, NoCmd)
      else if key = ''j'' \<or> key = ''down''
      then (clampCursor (m\<lparr>cursor := cursor m + 1\<rparr>), NoCmd)
      else if key = ''k'' \<or> key = ''up''
      then ((if cursor m > 0 then m\<lparr>cursor := cursor m - 1\<rparr> else m), NoCmd)
      else if key = ''g'' \<or> key = ''home''
      then (m\<lparr>cursor := 0, offset := 0\<rparr>, NoCmd)
      else if key = ''G'' \<or> key = ''end''
      then (clampCursor (m\<lparr>cursor := listLen m - 1\<rparr>), NoCmd)
      else if key = ''1'' then (m\<lparr>tab := tabConnections, cursor := 0, offset := 0\<rparr>, NoCmd)
      else if key = ''2'' then (m\<lparr>tab := tabPorts, cursor := 0, offset := 0\<rparr>, NoCmd)
      else if key = ''3'' then (m\<lparr>tab := tabInterfaces, cursor := 0, offset := 0\<rparr>, NoCmd)
      else (m, NoCmd))"

definition Update :: "model \<Rightarrow> msg \<Rightarrow> model \<times> cmd" where
  "Update m ms =
     (case ms of
        KeyMsg key \<Rightarrow> handleKey m key
      | WindowSizeMsg w h \<Rightarrow> (m\<lparr>width := w, height := h\<rparr>, NoCmd)
      | TickMsg \<Rightarrow> (m, FetchAndTick)
      | DataMsg d \<Rightarrow>
          (clampCursor (m\<lparr>model.connections := dataMsg.connections d,
                           model.ports := dataMsg.ports d,
                           model.interfaces := dataMsg.interfaces d\<rparr>), NoCmd)
      | OtherMsg \<Rightarrow> (m, NoCmd))"

text \<open>The program's loop: messages are handled one at a time, in order, until
  \<open>tea.Quit\<close>.\<close>

fun run :: "model \<Rightarrow> msg list \<Rightarrow> model" where
  "run m [] = m"
| "run m (ms # rest) =
     (case Update m ms of (m', c) \<Rightarrow> if c = Quit then m' else run m' rest)"

text \<open>The key classes of \<open>handleKey\<close>, the states whose tab is one of the three
  constants, and the state after one key press.\<close>

definition quitKeys :: "string set" where
  "quitKeys = {''q'', ''ctrl+c''}"

definition forwardKeys :: "string set" where
  "forwardKeys = {''tab'', ''l'', ''right''}"

definition backwardKeys :: "string set" where
  "backwardKeys = {''shift+tab'', ''h'', ''left''}"

definition downKeys :: "string set" where
  "downKeys = {''j'', ''down''}"

definition upKeys :: "string set" where
  "upKeys = {''k'', ''up''}"

definition homeKeys :: "string set" where
  "homeKeys = {''g'', ''home''}"

definition endKeys :: "string set" where
  "endKeys = {''G'', ''end''}"

definition selectKeys :: "string set" where
  "selectKeys = {''1'', ''2'', ''3''}"

definition validTab :: "model \<Rightarrow> bool" where
  "validTab m = (tab m = tabConnections \<or> tab m = tabPorts \<or> tab m = tabInterfaces)"

definition press :: "model \<Rightarrow> string \<Rightarrow> model" where
  "press m key = fst (handleKey m key)"

section \<open>Renderer\<close>

text \<open>
  The wall clock is read inside \<open>viewHeader\<close> by \<open>time.Now()\<close>; the model takes the
  reading as an argument, in nanoseconds of local time.
  \<open>Format("15:04:05")\<close> prints hours, minutes and seconds with two digits each.
\<close>

definition nl :: string where
  "nl = [CHR 0x0A]"

definition pad2 :: "nat \<Rightarrow> string" where
  "pad2 n = (if n < 10 then CHR ''0'' # showNat n else showNat n)"

definition formatClock :: "nat \<Rightarrow> string" where
  "formatClock now =
     (let s = now div 1000000000
      in pad2 (s div 3600 mod 24) @ '':'' @ pad2 (s div 60 mod 60) @ '':'' @ pad2 (s mod 60))"

definition joinWith :: "string \<Rightarrow> string list \<Rightarrow> string" where
  "joinWith sep xs = (case xs of [] \<Rightarrow> [] | x # rest \<Rightarrow> x @ concat (map (\<lambda>y. sep @ y) rest))"

definition tabNames :: "string list" where
  "tabNames = [''Connections'', ''Ports'', ''Interfaces'']"

definition viewHeader :: "libs \<Rightarrow> nat \<Rightarrow> model \<Rightarrow> string" where
  "viewHeader L now m =
     (let ttl = title L '' net-tui '';
          clock = dim L (formatClock now);
          gap = max (width m - lipglossWidth L ttl - lipglossWidth L clock) 0
      in ttl @ replicate (nat gap) CHR '' '' @ clock @ nl)"

definition viewTabs :: "libs \<Rightarrow> model \<Rightarrow> string" where
  "viewTabs L m =
     joinWith '' ''
       (map (\<lambda>i. (if int i = tab m then tabActive L else tabInactive L)
                    ('' '' @ tabNames ! i @ '' ''))
          [0..<3])
     @ nl"

definition viewFooter :: "libs \<Rightarrow> string" where
  "viewFooter L =
     nl @ dim L (''q quit '' @ [CHR 0xE2, CHR 0x80, CHR 0xA2] @ '' tab/1-3 switch ''
                  @ [CHR 0xE2, CHR 0x80, CHR 0xA2] @ '' j/k navigate'')"

text \<open>
  \<^verbatim>\<open>
  func (m *model) adjustOffset(pageSize int) {
      if m.cursor < m.offset {
          m.offset = m.cursor
      } else if m.cursor >= m.offset+pageSize {
          m.offset = m.cursor - pageSize + 1
      }
  }
  func (m model) visibleRange(total, pageSize int) visibleRange {
      end := min(m.offset + pageSize, total)
      return visibleRange{m.offset, end}
  }
  \<close>
  The struct \<open>visibleRange{start, end}\<close> is the pair \<open>(start, end)\<close>.
\<close>

definition adjustOffset :: "model \<Rightarrow> int \<Rightarrow> model" where
  "adjustOffset m pageSize =
     (if cursor m < offset m then m\<lparr>offset := cursor m\<rparr>
      else if cursor m \<ge> offset m + pageSize then m\<lparr>offset := cursor m - pageSize + 1\<rparr>
      else m)"

definition visibleRange :: "model \<Rightarrow> int \<Rightarrow> int \<Rightarrow> int \<times> int" where
  "visibleRange m tot pageSize = (offset m, min (offset m + pageSize) tot)"

text \<open>
  The row loop of the three views,
  \<^verbatim>\<open>for i := visible.start; i < visible.end; i++ { x := list[i]; ...; b.WriteString(...) }\<close>,
  with the builder \<open>b\<close> as accumulator. \<open>list[i]\<close> panics outside \<open>0 \<le> i < len(list)\<close>.
\<close>

function rowsLoop ::
  "(int \<Rightarrow> 'a \<Rightarrow> panic + string) \<Rightarrow> 'a list \<Rightarrow> int \<Rightarrow> int \<Rightarrow> string \<Rightarrow> panic + string" where
  "rowsLoop line xs i e b =
     (if i < e
      then (if 0 \<le> i \<and> i < int (length xs)
            then (case line i (xs ! nat i) of
                    Inl p \<Rightarrow> Inl p
                  | Inr l \<Rightarrow> rowsLoop line xs (i + 1) e (b @ l))
            else Inl IndexOutOfRange)
      else Inr b)"
  by pat_completeness auto
termination
  by (relation "measure (\<lambda>(line, xs, i, e, b). nat (e - i))") auto

declare rowsLoop.simps [simp del]

definition highlight :: "libs \<Rightarrow> model \<Rightarrow> int \<Rightarrow> string \<Rightarrow> string" where
  "highlight L m i line = (if i = cursor m then selected L line else line) @ nl"

definition connectionLine :: "libs \<Rightarrow> model \<Rightarrow> int \<Rightarrow> connection \<Rightarrow> panic + string" where
  "connectionLine L m i c =
     bindR (truncate (local c) 21) (\<lambda>lo.
     bindR (truncate (remote c) 21) (\<lambda>re.
     bindR (truncate (connection.process c) 15) (\<lambda>pr.
       Inr (highlight L m i
              (padRight (runeCount L) 7 (connection.proto c) @ '' ''
               @ padRight (runeCount L) 21 lo @ '' ''
               @ padRight (runeCount L) 21 re @ '' ''
               @ padRight (runeCount L) 11 (state c) @ '' '' @ pr)))))"

definition portLine :: "libs \<Rightarrow> model \<Rightarrow> int \<Rightarrow> port \<Rightarrow> panic + string" where
  "portLine L m i p =
     (let ad = (if addr p = [] \<or> addr p = ''0.0.0.0'' \<or> addr p = ''::'' then ''*'' else addr p)
      in bindR (truncate (port.process p) 20) (\<lambda>pr.
           Inr (highlight L m i
                  (padRight length 7 (showNat (unat (port p))) @ '' ''
                   @ padRight (runeCount L) 7 (port.proto p) @ '' ''
                   @ padRight (runeCount L) 16 ad @ '' ''
                   @ padRight length 8 (showInt (sint (port.pid p))) @ '' '' @ pr))))"

definition ifaceLine :: "libs \<Rightarrow> model \<Rightarrow> int \<Rightarrow> iface \<Rightarrow> panic + string" where
  "ifaceLine L m i ifc =
     (let st = (if up ifc then stateUp L ''up'' else stateDown L ''down'');
          ad = (case addrs ifc of [] \<Rightarrow> ''-'' | a # rest \<Rightarrow> a)
      in bindR (truncate ad 22) (\<lambda>tad.
         bindR (formatBytes (rx ifc)) (\<lambda>r.
         bindR (formatBytes (tx ifc)) (\<lambda>t.
           Inr (highlight L m i
                  (padRight (runeCount L) 12 (name ifc) @ '' ''
                   @ padRight (runeCount L) 6 st @ '' ''
                   @ padRight (runeCount L) 22 tad @ '' ''
                   @ padRight (runeCount L) 12 r @ '' '' @ t))))))"

text \<open>
  The three views have pointer receivers and assign \<open>m.offset\<close>; each returns its
  text (or the panic) together with the receiver as it leaves it.
\<close>

definition viewConnections :: "libs \<Rightarrow> model \<Rightarrow> int \<Rightarrow> (panic + string) \<times> model" where
  "viewConnections L m h =
     (let hdr = padRight (runeCount L) 7 ''PROTO'' @ '' '' @ padRight (runeCount L) 21 ''LOCAL'' @ '' ''
               @ padRight (runeCount L) 21 ''REMOTE'' @ '' '' @ padRight (runeCount L) 11 ''STATE''
               @ '' '' @ ''PROCESS'';
          b = header L hdr @ nl;
          m' = adjustOffset m (h - 1);
          visible = visibleRange m' (int (length (model.connections m'))) (h - 1)
      in (bindR (rowsLoop (connectionLine L m') (model.connections m') (fst visible) (snd visible) b)
            (\<lambda>b. Inr (b @ dim L (nl @ showInt (int (length (model.connections m')))
                               @ '' connections''))),
          m'))"

definition viewPorts :: "libs \<Rightarrow> model \<Rightarrow> int \<Rightarrow> (panic + string) \<times> model" where
  "viewPorts L m h =
     (let hdr = padRight (runeCount L) 7 ''PORT'' @ '' '' @ padRight (runeCount L) 7 ''PROTO'' @ '' ''
               @ padRight (runeCount L) 16 ''ADDRESS'' @ '' '' @ padRight (runeCount L) 8 ''PID''
               @ '' '' @ ''PROCESS'';
          b = header L hdr @ nl;
          m' = adjustOffset m (h - 1);
          visible = visibleRange m' (int (length (model.ports m'))) (h - 1)
      in (bindR (rowsLoop (portLine L m') (model.ports m') (fst visible) (snd visible) b)
            (\<lambda>b. Inr (b @ dim L (nl @ showInt (int (length (model.ports m')))
                               @ '' listening ports''))),
          m'))"

definition viewInterfaces :: "libs \<Rightarrow> model \<Rightarrow> int \<Rightarrow> (panic + string) \<times> model" where
  "viewInterfaces L m h =
     (let hdr = padRight (runeCount L) 12 ''NAME'' @ '' '' @ padRight (runeCount L) 6 ''STATE'' @ '' ''
               @ padRight (runeCount L) 22 ''ADDRESS'' @ '' '' @ padRight (runeCount L) 12 ''RX''
               @ '' '' @ ''TX'';
          b = header L hdr @ nl;
          m' = adjustOffset m (h - 1);
          visible = visibleRange m' (int (length (model.interfaces m'))) (h - 1)
      in (bindR (rowsLoop (ifaceLine L m') (model.interfaces m') (fst visible) (snd visible) b)
            (\<lambda>b. Inr (b @ dim L (nl @ showInt (int (length (model.interfaces m')))
                               @ '' interfaces''))),
          m'))"

text \<open>
  \<^verbatim>\<open>
  func (m model) viewContent() string {
      height := m.height - 5 // header, tabs, footer
      if height < 1 { height = 1 }
      switch m.tab { ... return m.viewConnections(height) ... }
      return ""
  }
  \<close>
  \<open>viewContent\<close> has a value receiver: the views work on its copy of the model, and
  the copy is dropped when it returns.
\<close>

definition contentHeight :: "model \<Rightarrow> int" where
  "contentHeight m = (let h = height m - 5 in if h < 1 then 1 else h)"

definition viewContent :: "libs \<Rightarrow> model \<Rightarrow> panic + string" where
  "viewContent L m =
     (let h = contentHeight m
      in if tab m = tabConnections then fst (viewConnections L m h)
         else if tab m = tabPorts then fst (viewPorts L m h)
         else if tab m = tabInterfaces then fst (viewInterfaces L m h)
         else Inr [])"

definition View :: "libs \<Rightarrow> nat \<Rightarrow> model \<Rightarrow> panic + string" where
  "View L now m =
     (if width m = 0 then Inr ''loading...''
      else bindR (viewContent L m) (\<lambda>content.
             Inr (viewHeader L now m @ viewTabs L m @ nl @ content @ viewFooter L)))"

text \<open>A terminal without colour support showing ASCII text: every style renders its
  text unchanged, and widths and rune counts are byte counts.\<close>

definition plainLibs :: libs where
  "plainLibs = \<lparr> title = (\<lambda>s. s), dim = (\<lambda>s. s), header = (\<lambda>s. s), selected = (\<lambda>s. s),
                  tabActive = (\<lambda>s. s), tabInactive = (\<lambda>s. s), stateUp = (\<lambda>s. s),
                  stateDown = (\<lambda>s. s), lipglossWidth = (\<lambda>s. int (length s)),
                  runeCount = length \<rparr>"

section \<open>What the fetchers compute\<close>

text \<open>
  Closed forms of the three loops, used to state their properties. \<open>nameOf\<close> is the
  name a lookup yields (empty on failure); \<open>portOf\<close> and \<open>ifaceOf\<close> are the records
  built from one raw connection and one interface; \<open>connKey\<close> is the pair the
  \<open>seen\<close> key is printed from.
\<close>

definition nameOf :: "(32 word \<Rightarrow> string option) \<Rightarrow> 32 word \<Rightarrow> string" where
  "nameOf lookup p = (case lookup p of Some n \<Rightarrow> n | None \<Rightarrow> [])"

definition cacheOk :: "(32 word \<Rightarrow> string option) \<Rightarrow> (32 word \<rightharpoonup> string) \<Rightarrow> bool" where
  "cacheOk lookup cache = (\<forall>p nm. cache p = Some nm \<longrightarrow> nm = nameOf lookup p)"

definition portOf :: "(32 word \<Rightarrow> string option) \<Rightarrow> ConnectionStat \<Rightarrow> port" where
  "portOf lookup c =
     \<lparr> port = Port (Laddr c), port.proto = protoString (Type c) (Family c),
       addr = IP (Laddr c), port.pid = Pid c,
       port.process = (if 0 < sint (Pid c) then nameOf lookup (Pid c) else []) \<rparr>"

text \<open>\<open>firstsFrom key S xs\<close>: the elements of \<open>xs\<close> whose key is neither in \<open>S\<close> nor
  the key of an earlier element.\<close>

fun firstsFrom :: "('a \<Rightarrow> 'k) \<Rightarrow> 'k set \<Rightarrow> 'a list \<Rightarrow> 'a list" where
  "firstsFrom key S [] = []"
| "firstsFrom key S (x # xs) =
     (if key x \<in> S then firstsFrom key S xs else x # firstsFrom key (insert (key x) S) xs)"

text \<open>Keeping the first occurrence for each key, in words: the element at index \<open>i\<close>
  stays when no element before it has the same key.\<close>

definition firstOccurrences :: "('a \<Rightarrow> 'k) \<Rightarrow> 'a list \<Rightarrow> 'a list" where
  "firstOccurrences key xs =
     map (\<lambda>i. xs ! i) (filter (\<lambda>i. \<forall>j<i. key (xs ! j) \<noteq> key (xs ! i)) [0..<length xs])"

definition connKey :: "ConnectionStat \<Rightarrow> 32 word \<times> 32 word" where
  "connKey c = (Port (Laddr c), Type c)"

definition ifaceOf :: "(string \<rightharpoonup> IOCountersStat) \<Rightarrow> Interface \<Rightarrow> iface" where
  "ifaceOf ioMap ni =
     \<lparr> name = Interface.Name ni, up = (Flags ni AND FlagUp \<noteq> 0),
       addrs = (case Addrs ni of Inr as \<Rightarrow> as | Inl err \<Rightarrow> []),
       rx = (case ioMap (Interface.Name ni) of Some io \<Rightarrow> BytesRecv io | None \<Rightarrow> 0),
       tx = (case ioMap (Interface.Name ni) of Some io \<Rightarrow> BytesSent io | None \<Rightarrow> 0) \<rparr>"


text \<open>Hosts used as concrete inputs.\<close>

definition quietHost :: host where
  "quietHost = \<lparr> connectionsCall = Inr [], portsCall = Inr [], interfacesCall = Inr [],
                  ioCountersCall = ([], None), processName = (\<lambda>p. None) \<rparr>"

definition listener :: "32 word \<Rightarrow> 32 word \<Rightarrow> 32 word \<Rightarrow> string \<Rightarrow> ConnectionStat" where
  "listener prt ty fam ip =
     \<lparr> Family = fam, Type = ty, Laddr = \<lparr> IP = ip, Port = prt \<rparr>,
       Raddr = \<lparr> IP = [], Port = 0 \<rparr>, Status = ''LISTEN'', Pid = 0 \<rparr>"

definition hostSsh :: host where
  "hostSsh = quietHost\<lparr> portsCall := Inr [listener 22 1 2 ''0.0.0.0'', listener 22 1 10 ''::''] \<rparr>"

definition hostDns :: host where
  "hostDns = quietHost\<lparr> portsCall := Inr [listener 53 1 2 ''0.0.0.0'', listener 53 2 2 ''0.0.0.0''] \<rparr>"


definition hostMixed :: host where
  "hostMixed =
     quietHost\<lparr> portsCall :=
       Inr [(listener 443 1 2 ''10.0.0.2'')\<lparr> Status := ''ESTABLISHED'' \<rparr>,
            listener 80 1 2 ''0.0.0.0'',
            listener 22 1 2 ''0.0.0.0'',
            listener 22 1 10 ''::'',
            listener 22 1 2 ''127.0.0.1'',
            listener 53 2 2 ''127.0.0.53''] \<rparr>"

definition hostNoConnections :: host where
  "hostNoConnections =
     quietHost\<lparr> connectionsCall := Inl (Error ''permission denied''),
                interfacesCall := Inr [\<lparr> Interface.Name = ''lo'', Flags = 5, Addrs = Inr [''127.0.0.1/8''] \<rparr>,
                                       \<lparr> Interface.Name = ''eth0'', Flags = 1, Addrs = Inr [''10.0.0.2/24''] \<rparr>],
                ioCountersCall := ([\<lparr> Name = ''eth0'', BytesSent = 2048, BytesRecv = 4096 \<rparr>], None) \<rparr>"


section \<open>Truncation\<close>

lemma truncate_negative_panics: "lim < 0 \<Longrightarrow> truncate s lim = Inl SliceBoundsOutOfRange"
  by (simp add: truncate_def)

lemma utf8Chars_ascii: "isAscii s \<Longrightarrow> utf8Chars s = length s"
proof -
  assume "isAscii s"
  then have "\<forall>c\<in>set s. \<not> isContinuationByte c"
    by (auto simp: isAscii_def isContinuationByte_def)
  then have "filter (\<lambda>c. \<not> isContinuationByte c) s = s" by (simp add: filter_id_conv)
  then show ?thesis by (simp add: utf8Chars_def)
qed

lemma isAscii_take: "isAscii s \<Longrightarrow> isAscii (take n s)"
  by (auto simp: isAscii_def dest: in_set_takeD)

lemma isAscii_dots: "isAscii s \<Longrightarrow> isAscii (s @ ''...'')"
  by (auto simp: isAscii_def)

lemma truncate_ascii: "isAscii s \<Longrightarrow> truncate s lim = Inr t \<Longrightarrow> isAscii t"
  by (auto simp: truncate_def isAscii_take isAscii_dots split: if_splits)

text \<open>
  Claim C7, as the code has it. \<open>truncate\<close> measures and cuts bytes. For a limit
  \<open>lim \<ge> 0\<close> (a column width): an input of at most \<open>lim\<close> bytes is returned
  unchanged; a longer input is cut to its first \<open>lim\<close> bytes when \<open>lim \<le> 3\<close>, and
  to its first \<open>lim - 3\<close> bytes followed by the three dots otherwise; whenever the
  input is cut, the output is exactly \<open>lim\<close> bytes long. For ASCII input bytes are
  characters, and the same holds with lengths counted in characters.
\<close>

theorem truncate_spec:
  assumes "0 \<le> lim"
  shows "(int (length s) \<le> lim \<longrightarrow> truncate s lim = Inr s)
       \<and> (lim < int (length s) \<and> lim \<le> 3 \<longrightarrow> truncate s lim = Inr (take (nat lim) s))
       \<and> (lim < int (length s) \<and> 3 < lim \<longrightarrow>
            truncate s lim = Inr (take (nat (lim - 3)) s @ ''...''))
       \<and> (lim < int (length s) \<longrightarrow>
            (\<exists>t. truncate s lim = Inr t \<and> int (length t) = lim))
       \<and> (isAscii s \<longrightarrow>
            (int (utf8Chars s) \<le> lim \<longrightarrow> truncate s lim = Inr s)
            \<and> (lim < int (utf8Chars s) \<longrightarrow>
                 (\<exists>t. truncate s lim = Inr t \<and> int (utf8Chars t) = lim)))"
proof -
  have b: "(int (length s) \<le> lim \<longrightarrow> truncate s lim = Inr s)
       \<and> (lim < int (length s) \<and> lim \<le> 3 \<longrightarrow> truncate s lim = Inr (take (nat lim) s))
       \<and> (lim < int (length s) \<and> 3 < lim \<longrightarrow>
            truncate s lim = Inr (take (nat (lim - 3)) s @ ''...''))
       \<and> (lim < int (length s) \<longrightarrow>
            (\<exists>t. truncate s lim = Inr t \<and> int (length t) = lim))"
    using assms by (auto simp: truncate_def min_def)
  have a: "isAscii s \<longrightarrow>
            (int (utf8Chars s) \<le> lim \<longrightarrow> truncate s lim = Inr s)
            \<and> (lim < int (utf8Chars s) \<longrightarrow>
                 (\<exists>t. truncate s lim = Inr t \<and> int (utf8Chars t) = lim))"
  proof (intro impI conjI)
    assume "isAscii s" "int (utf8Chars s) \<le> lim"
    then show "truncate s lim = Inr s" using b by (simp add: utf8Chars_ascii)
  next
    assume s: "isAscii s" and "lim < int (utf8Chars s)"
    then have "lim < int (length s)" by (simp add: utf8Chars_ascii)
    with b obtain t where t: "truncate s lim = Inr t" "int (length t) = lim" by blast
    from truncate_ascii [OF s t(1)] have "utf8Chars t = length t" by (rule utf8Chars_ascii)
    with t show "\<exists>t. truncate s lim = Inr t \<and> int (utf8Chars t) = lim" by simp
  qed
  from b a show ?thesis by blast
qed

theorem truncate_spec_witness:
  "(0::int) \<le> 5 \<and> truncate ''abc'' 5 = Inr ''abc''
   \<and> truncate ''abcdefgh'' 5 = Inr ''ab...''
   \<and> (0::int) \<le> 2 \<and> truncate ''abcdefgh'' 2 = Inr ''ab''
   \<and> isAscii ''abcdefgh'' \<and> (\<exists>t. truncate ''abcdefgh'' 5 = Inr t \<and> int (utf8Chars t) = 5)"
proof -
  have h: "(0::int) \<le> 5" "(0::int) \<le> 2" by simp_all
  have a: "isAscii ''abcdefgh''" by code_simp
  have l: "int (length ''abc'') \<le> 5" "5 < int (length ''abcdefgh'')"
    "2 < int (length ''abcdefgh'')" "(2::int) \<le> 3" "(3::int) < 5" by simp_all
  have u: "5 < int (utf8Chars ''abcdefgh'')" by code_simp
  have 1: "truncate ''abc'' 5 = Inr ''abc''"
    using truncate_spec [OF h(1), of "''abc''"] l(1) by blast
  have "truncate ''abcdefgh'' 5 = Inr (take (nat (5 - 3)) ''abcdefgh'' @ ''...'')"
    using truncate_spec [OF h(1), of "''abcdefgh''"] l(2,5) by blast
  then have 2: "truncate ''abcdefgh'' 5 = Inr ''ab...''" by simp
  have "truncate ''abcdefgh'' 2 = Inr (take (nat 2) ''abcdefgh'')"
    using truncate_spec [OF h(2), of "''abcdefgh''"] l(3,4) by blast
  then have 3: "truncate ''abcdefgh'' 2 = Inr ''ab''" by simp
  have 4: "\<exists>t. truncate ''abcdefgh'' 5 = Inr t \<and> int (utf8Chars t) = 5"
    using truncate_spec [OF h(1), of "''abcdefgh''"] a u by blast
  from h 1 2 3 a 4 show ?thesis by (intro conjI)
qed

text \<open>
  A text of three characters in nine bytes at limit 5: within the limit in characters,
  yet cut after its second byte, inside the first character.
\<close>

theorem truncate_cuts_multibyte_text:
  "utf8Chars nihongo = 3 \<and> length nihongo = 9
   \<and> truncate nihongo 5 = Inr [CHR 0xE6, CHR 0x97, CHR ''.'', CHR ''.'', CHR ''.'']
   \<and> truncate nihongo 5 \<noteq> Inr nihongo"
  by code_simp


section \<open>Byte scaling\<close>


lemma loop_aux1: "(1024::nat) \<le> n \<Longrightarrow> n * d < M \<Longrightarrow> d * 1024 < M"
proof -
  assume a: "(1024::nat) \<le> n" and b: "n * d < M"
  have "d * 1024 \<le> d * n" using a by (rule mult_le_mono2)
  also have "\<dots> = n * d" by (rule mult.commute)
  finally show ?thesis using b by (rule le_less_trans)
qed

lemma loop_aux2: "n * d < M \<Longrightarrow> n div 1024 * (d * 1024) < (M::nat)"
proof -
  assume b: "n * d < M"
  have "n div 1024 * (d * 1024) = (n div 1024 * 1024) * d" by (simp add: mult.commute mult.left_commute)
  also have "\<dots> \<le> n * d" by (rule mult_le_mono1) (rule div_times_less_eq_dividend)
  finally show ?thesis using b by (rule le_less_trans)
qed

lemma formatBytes_loop_spec:
  "formatBytes_loop n dv ex = (dv', ex') \<Longrightarrow> unat n * unat dv < 2 ^ 64 \<Longrightarrow> 0 < unat n \<Longrightarrow>
   \<exists>j. ex' = ex + j \<and> unat dv' = unat dv * 1024 ^ j \<and> 1024 ^ j \<le> unat n \<and> unat n < 1024 ^ (j + 1)"
proof (induction n dv ex rule: formatBytes_loop.induct)
  case (1 n dv ex)
  show ?case
  proof (cases "1024 \<le> n")
    case False
    then have "unat n < 1024" by (simp add: word_le_nat_alt)
    moreover from False "1.prems"(1) have "dv' = dv" "ex' = ex"
      by (simp_all add: formatBytes_loop.simps)
    ultimately show ?thesis using "1.prems"(3) by (intro exI [of _ 0]) simp
  next
    case True
    then have big: "1024 \<le> unat n" by (simp add: word_le_nat_alt)
    have dn: "unat (n div 1024) = unat n div 1024" by (simp add: unat_div)
    have small: "unat dv * 1024 < 2 ^ 64"
      using big "1.prems"(2) by (rule loop_aux1)
    then have dm: "unat (dv * 1024) = unat dv * 1024"
      by (simp add: unat_word_ariths)
    have rec: "formatBytes_loop (n div 1024) (dv * 1024) (ex + 1) = (dv', ex')"
      using True "1.prems"(1) by (simp add: formatBytes_loop.simps)
    have p2: "unat (n div 1024) * unat (dv * 1024) < 2 ^ 64"
      unfolding dn dm using "1.prems"(2) by (rule loop_aux2)
    have p3: "0 < unat (n div 1024)" using big by (simp add: dn)
    from "1.IH" [OF True rec p2 p3] obtain j where j:
      "ex' = ex + 1 + j" "unat dv' = unat (dv * 1024) * 1024 ^ j"
      "1024 ^ j \<le> unat (n div 1024)" "unat (n div 1024) < 1024 ^ (j + 1)"
      by auto
    have "1024 ^ (j + 1) \<le> unat n"
      using j(3) big by (simp add: dn less_eq_div_iff_mult_less_eq mult.commute)
    moreover have "unat n < 1024 ^ (j + 2)"
      using j(4) by (simp add: dn div_less_iff_less_mult mult.commute)
    ultimately show ?thesis using j(1,2) by (intro exI [of _ "j + 1"]) (simp add: dm)
  qed
qed

lemma float64_pow1024:
  assumes "k < 6" and "unat dv = 1024 ^ (k + 1)"
  shows "float64 dv = 1024 ^ (k + 1)"
proof -
  have r: "round53 1024 = 1024" "round53 1048576 = 1048576"
    "round53 1073741824 = 1073741824" "round53 1099511627776 = 1099511627776"
    "round53 1125899906842624 = 1125899906842624"
    "round53 1152921504606846976 = 1152921504606846976"
    by code_simp+
  from assms(1) have "k = 0 \<or> k = 1 \<or> k = 2 \<or> k = 3 \<or> k = 4 \<or> k = 5"
    by linarith
  then show ?thesis
    unfolding float64_def assms(2) using r by (elim disjE) simp_all
qed

lemma formatBytes_small: "b < 1024 \<Longrightarrow> formatBytes b = Inr (showNat (unat b) @ '' B'')"
  by (simp add: formatBytes_def)

lemma showNat_digit: "n < 10 \<Longrightarrow> showNat n = [digitChar n]"
  by (simp add: showNat.simps)

lemma formatBytes_scaled:
  assumes "1024 \<le> b"
  shows "\<exists>k<6. 1024 ^ (k + 1) \<le> unat b \<and> unat b < 1024 ^ (k + 2)
           \<and> formatBytes b =
               Inr (let t = roundHalfEven (10 * float64 b) (1024 ^ (k + 1))
                    in showNat (t div 10) @ ''.'' @ [digitChar (t mod 10)] @ '' ''
                       @ [''KMGTPE'' ! k] @ ''B'')"
proof -
  obtain dv ex where loop: "formatBytes_loop (b div 1024) 1024 0 = (dv, ex)"
    by (cases "formatBytes_loop (b div 1024) 1024 0")
  have big: "1024 \<le> unat b" using assms by (simp add: word_le_nat_alt)
  have dn: "unat (b div 1024) = unat b div 1024" by (simp add: unat_div)
  have lt: "unat b < 2 ^ 64" using unsigned_less [of b, where 'a = nat] by simp
  have "unat b div 1024 * 1024 \<le> unat b" by (rule div_times_less_eq_dividend)
  then have p2: "unat (b div 1024) * unat (1024 :: 64 word) < 2 ^ 64"
    using lt by (simp add: dn)
  have p3: "0 < unat (b div 1024)" using big by (simp add: dn)
  from formatBytes_loop_spec [OF loop p2 p3] obtain j where j:
    "ex = j" "unat dv = 1024 * 1024 ^ j" "1024 ^ j \<le> unat b div 1024"
    "unat b div 1024 < 1024 ^ (j + 1)"
    by (auto simp: dn)
  have "(1024::nat) ^ j < 1024 ^ 6"
  proof -
    have "unat b div 1024 < 2 ^ 54" using lt by simp
    with j(3) have "(1024::nat) ^ j < 2 ^ 54" by (rule le_less_trans)
    then show ?thesis by simp
  qed
  then have j6: "j < 6" by (simp only: power_strict_increasing_iff) 
  have lo: "1024 ^ (j + 1) \<le> unat b"
    using j(3) by (simp add: less_eq_div_iff_mult_less_eq mult.commute)
  have hi: "unat b < 1024 ^ (j + 2)"
    using j(4) by (simp add: div_less_iff_less_mult mult.commute)
  have fd: "float64 dv = 1024 ^ (j + 1)"
    using j6 j(2) by (intro float64_pow1024) simp_all
  have "\<not> b < 1024" using assms by simp
  then have "formatBytes b =
      Inr (let t = roundHalfEven (10 * float64 b) (1024 ^ (j + 1))
           in showNat (t div 10) @ ''.'' @ [digitChar (t mod 10)] @ '' ''
              @ [''KMGTPE'' ! j] @ ''B'')"
    using j6 by (simp add: formatBytes_def loop j(1) fd fmtF1_def Let_def showNat_digit)
  with j6 lo hi show ?thesis by blast
qed

text \<open>
  Claim C9. \<open>formatBytes\<close> maps 1023 to "1023 B", 1024 to "1.0 KB" and 1048576 to
  "1.0 MB". Below 1024 the value is printed as a decimal integer followed by " B".
  From 1024 on, the unit is the \<open>k\<close>-th letter of KMGTPE, where
  \<open>1024^(k+1) \<le> b < 1024^(k+2)\<close>, the value \<open>float64(b) / 1024^(k+1)\<close> is printed
  rounded to one decimal place, and the index into the unit letters is always in range.
\<close>

theorem formatBytes_spec:
  "formatBytes 1023 = Inr ''1023 B'' \<and> formatBytes 1024 = Inr ''1.0 KB''
   \<and> formatBytes 1048576 = Inr ''1.0 MB''
   \<and> (\<forall>b. b < 1024 \<longrightarrow> formatBytes b = Inr (showNat (unat b) @ '' B''))
   \<and> (\<forall>b. 1024 \<le> b \<longrightarrow>
        (\<exists>k<6. 1024 ^ (k + 1) \<le> unat b \<and> unat b < 1024 ^ (k + 2)
           \<and> formatBytes b =
               Inr (let t = roundHalfEven (10 * float64 b) (1024 ^ (k + 1))
                    in showNat (t div 10) @ ''.'' @ [digitChar (t mod 10)] @ '' ''
                       @ [''KMGTPE'' ! k] @ ''B'')))"
proof (intro conjI allI impI)
  show "formatBytes 1023 = Inr ''1023 B''" by code_simp
  show "formatBytes 1024 = Inr ''1.0 KB''" by code_simp
  show "formatBytes 1048576 = Inr ''1.0 MB''" by code_simp
next
  fix b :: "64 word" assume "b < 1024"
  then show "formatBytes b = Inr (showNat (unat b) @ '' B'')" by (rule formatBytes_small)
next
  fix b :: "64 word" assume "1024 \<le> b"
  then show "\<exists>k<6. 1024 ^ (k + 1) \<le> unat b \<and> unat b < 1024 ^ (k + 2)
           \<and> formatBytes b =
               Inr (let t = roundHalfEven (10 * float64 b) (1024 ^ (k + 1))
                    in showNat (t div 10) @ ''.'' @ [digitChar (t mod 10)] @ '' ''
                       @ [''KMGTPE'' ! k] @ ''B'')"
    by (rule formatBytes_scaled)
qed

theorem formatBytes_spec_witness:
  "(5 :: 64 word) < 1024 \<and> formatBytes 5 = Inr ''5 B''
   \<and> (1024 :: 64 word) \<le> 1536 \<and> (\<exists>s. formatBytes 1536 = Inr (s @ '' KB''))"
proof -
  have a: "(5 :: 64 word) < 1024" by simp
  have b: "(1024 :: 64 word) \<le> 1536" by simp
  from formatBytes_spec a have "formatBytes 5 = Inr (showNat (unat (5 :: 64 word)) @ '' B'')"
    by blast
  then have c: "formatBytes 5 = Inr ''5 B''" by (simp add: showNat.simps digitChar_def)
  from formatBytes_spec b obtain k where k: "k < 6" "1024 ^ (k + 1) \<le> unat (1536 :: 64 word)"
    "unat (1536 :: 64 word) < 1024 ^ (k + 2)"
    "formatBytes 1536 =
               Inr (let t = roundHalfEven (10 * float64 1536) (1024 ^ (k + 1))
                    in showNat (t div 10) @ ''.'' @ [digitChar (t mod 10)] @ '' ''
                       @ [''KMGTPE'' ! k] @ ''B'')"
    by blast
  have "(1024::nat) ^ (k + 1) < 1024 ^ 2" using k(2) by simp
  then have "k + 1 < 2" by (simp only: power_strict_increasing_iff) 
  then have "k = 0" by simp
  with k(4) have "\<exists>s. formatBytes 1536 = Inr (s @ '' KB'')" by (simp add: Let_def)
  with a b c show ?thesis by blast
qed

section \<open>Port derivation\<close>

subsection \<open>The key of the seen map determines port and socket type\<close>

lemma digitChar_inj: "a < 10 \<Longrightarrow> b < 10 \<Longrightarrow> digitChar a = digitChar b \<Longrightarrow> a = b"
proof -
  assume a: "a < 10" and b: "b < 10" and e: "digitChar a = digitChar b"
  have d: "distinct ''0123456789''" by simp
  have "a < length ''0123456789''" "b < length ''0123456789''" using a b by simp_all
  with d e show "a = b" unfolding digitChar_def by (simp only: nth_eq_iff_index_eq)
qed

lemma digitChar_not_dash: "d < 10 \<Longrightarrow> digitChar d \<noteq> CHR ''-''"
proof -
  assume "d < 10"
  then have "d < length ''0123456789''" by simp
  then have "''0123456789'' ! d \<in> set ''0123456789''" by (rule nth_mem)
  moreover have "CHR ''-'' \<notin> set ''0123456789''" by simp
  ultimately show ?thesis unfolding digitChar_def by metis
qed

lemma showNat_no_dash: "CHR ''-'' \<notin> set (showNat n)"
proof (induction n rule: showNat.induct)
  case (1 n)
  show ?case
  proof (cases "n < 10")
    case True
    then show ?thesis using digitChar_not_dash [of n] by (auto simp: showNat.simps)
  next
    case False
    have "n mod 10 < 10" by simp
    then have "digitChar (n mod 10) \<noteq> CHR ''-''" by (rule digitChar_not_dash)
    with False "1.IH" show ?thesis by (subst showNat.simps) auto
  qed
qed

lemma showNat_length: "(length (showNat n) = 1) = (n < 10)"
proof (cases "n < 10")
  case True then show ?thesis by (simp add: showNat.simps)
next
  case False
  have "showNat (n div 10) \<noteq> []" by (subst showNat.simps) simp
  with False show ?thesis by (subst showNat.simps) simp
qed

lemma showNat_inj: "showNat a = showNat b \<Longrightarrow> a = b"
proof (induction a arbitrary: b rule: showNat.induct)
  case (1 a)
  from "1.prems" have len: "(a < 10) = (b < 10)" using showNat_length by metis
  show ?case
  proof (cases "a < 10")
    case True
    with len "1.prems" show ?thesis by (auto simp: showNat.simps dest: digitChar_inj)
  next
    case False
    with len have nb: "\<not> b < 10" by simp
    from "1.prems" False nb
    have "showNat (a div 10) @ [digitChar (a mod 10)] = showNat (b div 10) @ [digitChar (b mod 10)]"
      by (simp add: showNat.simps [of a] showNat.simps [of b])
    then have e: "showNat (a div 10) = showNat (b div 10)" "digitChar (a mod 10) = digitChar (b mod 10)"
      by simp_all
    from "1.IH" [OF False e(1)] have "a div 10 = b div 10" .
    moreover from e(2) have "a mod 10 = b mod 10" by (intro digitChar_inj) simp_all
    ultimately show ?thesis by (metis div_mult_mod_eq)
  qed
qed

lemma split_at_dash:
  assumes "CHR ''-'' \<notin> set xs" "CHR ''-'' \<notin> set xs'" "xs @ CHR ''-'' # ys = xs' @ CHR ''-'' # ys'"
  shows "xs = xs' \<and> ys = ys'"
proof -
  have "takeWhile (\<lambda>c. c \<noteq> CHR ''-'') (xs @ CHR ''-'' # ys) = xs"
    by (subst takeWhile_append2) (use assms(1) in auto)
  moreover have "takeWhile (\<lambda>c. c \<noteq> CHR ''-'') (xs' @ CHR ''-'' # ys') = xs'"
    by (subst takeWhile_append2) (use assms(2) in auto)
  ultimately have "xs = xs'" using assms(3) by simp
  with assms(3) show ?thesis by simp
qed

lemma portKey_eq_iff: "(portKey c = portKey d) = (connKey c = connKey d)"
proof
  assume "portKey c = portKey d"
  then have "showNat (unat (Port (Laddr c))) = showNat (unat (Port (Laddr d)))
      \<and> showNat (unat (Type c)) = showNat (unat (Type d))"
    unfolding portKey_def by (intro split_at_dash showNat_no_dash) simp
  then show "connKey c = connKey d"
    by (auto simp: connKey_def word_unat_eq_iff dest!: showNat_inj)
next
  assume "connKey c = connKey d"
  then show "portKey c = portKey d" by (simp add: connKey_def portKey_def)
qed



subsection \<open>The loop of fetchPorts\<close>

lemma cacheOk_empty: "cacheOk lookup Map.empty"
  by (simp add: cacheOk_def)

lemma getProcessName_ok:
  assumes "cacheOk lookup cache" "getProcessName lookup p cache = (nm, cache')"
  shows "nm = nameOf lookup p \<and> cacheOk lookup cache'"
proof (cases "cache p")
  case None
  with assms(2) have "nm = nameOf lookup p" "cache' = cache(p \<mapsto> nameOf lookup p)"
    by (auto simp: getProcessName_def nameOf_def Let_def)
  with assms(1) show ?thesis by (auto simp: cacheOk_def)
next
  case (Some a)
  with assms(2) have "nm = a" "cache' = cache" by (auto simp: getProcessName_def)
  with assms(1) Some show ?thesis by (auto simp: cacheOk_def)
qed

lemma seen_insert:
  "{k. seenLookup (seen(key \<mapsto> True)) k} = insert key {k. seenLookup seen k}"
  by (auto simp: seenLookup_def)

lemma fetchPorts_loop_eq:
  "cacheOk lookup cache \<Longrightarrow>
   fetchPorts_loop lookup conns seen result cache =
     result @ map (portOf lookup)
       (firstsFrom portKey {k. seenLookup seen k} (filter (\<lambda>c. Status c = ''LISTEN'') conns))"
proof (induction conns arbitrary: seen result cache)
  case Nil
  then show ?case by simp
next
  case (Cons c conns)
  show ?case
  proof (cases "Status c = ''LISTEN''")
    case False
    then show ?thesis using Cons.IH [OF Cons.prems] by simp
  next
    case listen: True
    show ?thesis
    proof (cases "seenLookup seen (portKey c)")
      case True
      then show ?thesis using listen Cons.IH [OF Cons.prems] by simp
    next
      case unseen: False
      show ?thesis
      proof (cases "0 < sint (Pid c)")
        case False
        have "fetchPorts_loop lookup (c # conns) seen result cache =
            fetchPorts_loop lookup conns (seen(portKey c \<mapsto> True)) (result @ [portOf lookup c]) cache"
          using listen unseen False by (simp add: portOf_def Let_def)
        also have "\<dots> = (result @ [portOf lookup c]) @ map (portOf lookup)
            (firstsFrom portKey {k. seenLookup (seen(portKey c \<mapsto> True)) k}
               (filter (\<lambda>c. Status c = ''LISTEN'') conns))"
          by (rule Cons.IH [OF Cons.prems])
        also have "\<dots> = result @ map (portOf lookup)
            (firstsFrom portKey {k. seenLookup seen k} (filter (\<lambda>c. Status c = ''LISTEN'') (c # conns)))"
          using listen unseen by (simp add: seen_insert)
        finally show ?thesis .
      next
        case True
        obtain nm cache' where g: "getProcessName lookup (Pid c) cache = (nm, cache')"
          by (cases "getProcessName lookup (Pid c) cache")
        from getProcessName_ok [OF Cons.prems g]
        have nm: "nm = nameOf lookup (Pid c)" and ok: "cacheOk lookup cache'" by simp_all
        have "fetchPorts_loop lookup (c # conns) seen result cache =
            fetchPorts_loop lookup conns (seen(portKey c \<mapsto> True)) (result @ [portOf lookup c]) cache'"
          using listen unseen True g nm by (simp add: portOf_def Let_def)
        also have "\<dots> = (result @ [portOf lookup c]) @ map (portOf lookup)
            (firstsFrom portKey {k. seenLookup (seen(portKey c \<mapsto> True)) k}
               (filter (\<lambda>c. Status c = ''LISTEN'') conns))"
          by (rule Cons.IH [OF ok])
        also have "\<dots> = result @ map (portOf lookup)
            (firstsFrom portKey {k. seenLookup seen k} (filter (\<lambda>c. Status c = ''LISTEN'') (c # conns)))"
          using listen unseen by (simp add: seen_insert)
        finally show ?thesis .
      qed
    qed
  qed
qed

lemma filter_upt_Suc:
  "filter P [0..<Suc n] = (if P 0 then [0] else []) @ map Suc (filter (\<lambda>i. P (Suc i)) [0..<n])"
proof -
  have "[0..<Suc n] = 0 # map Suc [0..<n]"
    by (simp only: upt_conv_Cons [of 0 "Suc n"] map_Suc_upt)
  then show ?thesis by (simp add: filter_map comp_def)
qed

lemma all_less_Suc_shift: "(\<forall>j<Suc i. Q j) = (Q 0 \<and> (\<forall>j<i. Q (Suc j)))"
  by (metis less_Suc_eq_0_disj Suc_less_eq zero_less_Suc)

lemma firstsFrom_index:
  "firstsFrom key S xs =
     map (\<lambda>i. xs ! i)
       (filter (\<lambda>i. key (xs ! i) \<notin> S \<and> (\<forall>j<i. key (xs ! j) \<noteq> key (xs ! i))) [0..<length xs])"
proof (induction xs arbitrary: S)
  case Nil
  then show ?case by simp
next
  case (Cons x xs)
  show ?case
  proof (cases "key x \<in> S")
    case True
    have "filter (\<lambda>i. key (xs ! i) \<notin> S \<and> key x \<noteq> key (xs ! i)
              \<and> (\<forall>j<i. key (xs ! j) \<noteq> key (xs ! i))) [0..<length xs]
        = filter (\<lambda>i. key (xs ! i) \<notin> S \<and> (\<forall>j<i. key (xs ! j) \<noteq> key (xs ! i))) [0..<length xs]"
      using True by (intro filter_cong) auto
    with True show ?thesis
      by (simp add: Cons.IH filter_upt_Suc all_less_Suc_shift comp_def del: upt_Suc)
  next
    case False
    have "filter (\<lambda>i. key (xs ! i) \<notin> S \<and> key x \<noteq> key (xs ! i)
              \<and> (\<forall>j<i. key (xs ! j) \<noteq> key (xs ! i))) [0..<length xs]
        = filter (\<lambda>i. key (xs ! i) \<notin> insert (key x) S
              \<and> (\<forall>j<i. key (xs ! j) \<noteq> key (xs ! i))) [0..<length xs]"
      by (intro filter_cong) auto
    with False show ?thesis
      by (simp add: Cons.IH filter_upt_Suc all_less_Suc_shift comp_def del: upt_Suc)
  qed
qed

lemma firstsFrom_empty: "firstsFrom key {} xs = firstOccurrences key xs"
  by (simp add: firstsFrom_index firstOccurrences_def)

lemma firstOccurrences_cong:
  assumes "\<And>x y. (k1 x = k1 y) = (k2 x = k2 y)"
  shows "firstOccurrences k1 xs = firstOccurrences k2 xs"
  by (simp add: firstOccurrences_def assms)


lemma fetchPorts_mset:
  assumes "portsCall h = Inr conns"
  shows "mset (fetchPorts h) =
           mset (map (portOf (processName h))
                  (firstOccurrences connKey (filter (\<lambda>c. Status c = ''LISTEN'') conns)))"
proof -
  have "seenLookup Map.empty = (\<lambda>k. False)" by (simp add: seenLookup_def fun_eq_iff)
  then have e: "{k. seenLookup Map.empty k} = {}" by simp
  have "firstOccurrences portKey (filter (\<lambda>c. Status c = ''LISTEN'') conns)
      = firstOccurrences connKey (filter (\<lambda>c. Status c = ''LISTEN'') conns)"
    by (rule firstOccurrences_cong) (rule portKey_eq_iff)
  then show ?thesis
    using assms
    by (simp add: fetchPorts_def sortSlice_port_def fetchPorts_loop_eq [OF cacheOk_empty] e
        firstsFrom_empty)
qed

text \<open>
  Claim C3, as the code has it. The key of the \<open>seen\<close> map is printed from the port
  number and the socket type code \<open>c.Type\<close>, not from the transport label (which
  also depends on the address family). Among the raw connections in the listening
  state, \<open>fetchPorts\<close> keeps exactly the first occurrence for each distinct
  (port number, socket type) pair, as a multiset of records: entries sharing port and
  socket type collapse to the first one seen whatever their bind address and address
  family, entries of the same port and different socket type each yield a record.
\<close>

theorem fetchPorts_first_per_port_and_type:
  assumes "portsCall h = Inr conns"
  shows "mset (fetchPorts h) =
           mset (map (portOf (processName h))
                  (firstOccurrences connKey (filter (\<lambda>c. Status c = ''LISTEN'') conns)))"
  using assms by (rule fetchPorts_mset)

theorem fetchPorts_first_per_port_and_type_witness:
  "portsCall hostMixed =
     Inr [(listener 443 1 2 ''10.0.0.2'')\<lparr> Status := ''ESTABLISHED'' \<rparr>,
          listener 80 1 2 ''0.0.0.0'', listener 22 1 2 ''0.0.0.0'', listener 22 1 10 ''::'',
          listener 22 1 2 ''127.0.0.1'', listener 53 2 2 ''127.0.0.53'']
   \<and> mset (fetchPorts hostMixed) =
       {# \<lparr> port = 80, port.proto = ''tcp'', addr = ''0.0.0.0'', port.pid = 0, port.process = [] \<rparr>,
          \<lparr> port = 22, port.proto = ''tcp'', addr = ''0.0.0.0'', port.pid = 0, port.process = [] \<rparr>,
          \<lparr> port = 53, port.proto = ''udp'', addr = ''127.0.0.53'', port.pid = 0, port.process = [] \<rparr> #}"
proof -
  let ?conns = "[(listener 443 1 2 ''10.0.0.2'')\<lparr> Status := ''ESTABLISHED'' \<rparr>,
          listener 80 1 2 ''0.0.0.0'', listener 22 1 2 ''0.0.0.0'', listener 22 1 10 ''::'',
          listener 22 1 2 ''127.0.0.1'', listener 53 2 2 ''127.0.0.53'']"
  have p: "portsCall hostMixed = Inr ?conns" by (simp add: hostMixed_def)
  have "mset (map (portOf (processName hostMixed))
               (firstOccurrences connKey (filter (\<lambda>c. Status c = ''LISTEN'') ?conns))) =
       {# \<lparr> port = 80, port.proto = ''tcp'', addr = ''0.0.0.0'', port.pid = 0, port.process = [] \<rparr>,
          \<lparr> port = 22, port.proto = ''tcp'', addr = ''0.0.0.0'', port.pid = 0, port.process = [] \<rparr>,
          \<lparr> port = 53, port.proto = ''udp'', addr = ''127.0.0.53'', port.pid = 0, port.process = [] \<rparr> #}"
    by code_simp
  with fetchPorts_first_per_port_and_type [OF p] p show ?thesis by simp
qed

text \<open>
  Two listening sockets on port 22, one IPv4 (label tcp) and one IPv6 (label tcp6):
  the labels differ and a single record comes out, the first one seen.
\<close>

theorem fetchPorts_merges_tcp_and_tcp6:
  "portsCall hostSsh = Inr [listener 22 1 2 ''0.0.0.0'', listener 22 1 10 ''::'']
   \<and> protoString (Type (listener 22 1 2 ''0.0.0.0'')) (Family (listener 22 1 2 ''0.0.0.0'')) = ''tcp''
   \<and> protoString (Type (listener 22 1 10 ''::'')) (Family (listener 22 1 10 ''::'')) = ''tcp6''
   \<and> fetchPorts hostSsh =
       [\<lparr> port = 22, port.proto = ''tcp'', addr = ''0.0.0.0'', port.pid = 0, port.process = [] \<rparr>]"
  by code_simp

subsection \<open>Order and multiplicity of the port numbers\<close>

lemma firstsFrom_props:
  "set (firstsFrom key S xs) \<subseteq> set xs
   \<and> distinct (map key (firstsFrom key S xs))
   \<and> key ` set (firstsFrom key S xs) = key ` set xs - S"
proof (induction xs arbitrary: S)
  case Nil
  then show ?case by simp
next
  case (Cons x xs)
  show ?case
  proof (cases "key x \<in> S")
    case True
    with Cons.IH [of S] show ?thesis by auto
  next
    case False
    from Cons.IH [of "insert (key x) S"]
    have s: "set (firstsFrom key (insert (key x) S) xs) \<subseteq> set xs"
      and d: "distinct (map key (firstsFrom key (insert (key x) S) xs))"
      and i: "key ` set (firstsFrom key (insert (key x) S) xs) = key ` set xs - insert (key x) S"
      by simp_all
    from i have "key x \<notin> key ` set (firstsFrom key (insert (key x) S) xs)" by blast
    with False s d i show ?thesis by auto
  qed
qed

lemma firstOccurrences_props:
  "set (firstOccurrences key xs) \<subseteq> set xs"
  "distinct (map key (firstOccurrences key xs))"
  "key ` set (firstOccurrences key xs) = key ` set xs"
  using firstsFrom_props [of key "{}" xs] by (simp_all add: firstsFrom_empty)

lemma port_portOf: "port (portOf lookup c) = fst (connKey c)"
  by (simp add: portOf_def connKey_def)

lemma distinct_ports_iff:
  "distinct (map (\<lambda>c. fst (connKey c)) (firstOccurrences connKey ls))
   = (\<forall>c\<in>set ls. \<forall>d\<in>set ls. Port (Laddr c) = Port (Laddr d) \<longrightarrow> Type c = Type d)"
proof
  let ?F = "firstOccurrences connKey ls"
  assume d: "distinct (map (\<lambda>c. fst (connKey c)) ?F)"
  then have inj: "inj_on (\<lambda>c. fst (connKey c)) (set ?F)" by (simp add: distinct_map)
  show "\<forall>c\<in>set ls. \<forall>d\<in>set ls. Port (Laddr c) = Port (Laddr d) \<longrightarrow> Type c = Type d"
  proof (intro ballI impI)
    fix c d assume c: "c \<in> set ls" and dd: "d \<in> set ls" and p: "Port (Laddr c) = Port (Laddr d)"
    from c have "connKey c \<in> connKey ` set ?F"
      by (simp only: firstOccurrences_props(3)) (rule imageI)
    then obtain c' where c': "c' \<in> set ?F" "connKey c' = connKey c" by auto
    from dd have "connKey d \<in> connKey ` set ?F"
      by (simp only: firstOccurrences_props(3)) (rule imageI)
    then obtain d' where d': "d' \<in> set ?F" "connKey d' = connKey d" by auto
    from p c'(2) d'(2) have "fst (connKey c') = fst (connKey d')" by (simp add: connKey_def)
    with inj c'(1) d'(1) have "c' = d'" by (auto dest: inj_onD)
    with c'(2) d'(2) show "Type c = Type d" by (simp add: connKey_def)
  qed
next
  let ?F = "firstOccurrences connKey ls"
  assume a: "\<forall>c\<in>set ls. \<forall>d\<in>set ls. Port (Laddr c) = Port (Laddr d) \<longrightarrow> Type c = Type d"
  from firstOccurrences_props(2) [of connKey ls]
  have dF: "distinct ?F" and injK: "inj_on connKey (set ?F)" by (simp_all add: distinct_map)
  have "inj_on (\<lambda>c. fst (connKey c)) (set ?F)"
  proof (rule inj_onI)
    fix c d assume c: "c \<in> set ?F" and d: "d \<in> set ?F" and e: "fst (connKey c) = fst (connKey d)"
    from c d firstOccurrences_props(1) [of connKey ls] have "c \<in> set ls" "d \<in> set ls" by auto
    with a have "Port (Laddr c) = Port (Laddr d) \<longrightarrow> Type c = Type d" by blast
    moreover from e have pe: "Port (Laddr c) = Port (Laddr d)" by (simp add: connKey_def)
    ultimately have "Type c = Type d" by blast
    with pe have "connKey c = connKey d" by (simp add: connKey_def)
    with injK c d show "c = d" by (auto dest: inj_onD)
  qed
  with dF show "distinct (map (\<lambda>c. fst (connKey c)) ?F)" by (simp add: distinct_map)
qed

lemma fetchPorts_sorted_ports: "sorted (map port (fetchPorts h))"
  by (cases "portsCall h") (simp_all add: fetchPorts_def sortSlice_port_def)

lemma fetchPorts_count_and_strictness:
  assumes p: "portsCall h = Inr conns"
    and ls: "ls = filter (\<lambda>c. Status c = ''LISTEN'') conns"
  shows "length (fetchPorts h) = card (connKey ` set ls)"
    and "sorted_wrt (<) (map port (fetchPorts h))
           = (\<forall>c\<in>set ls. \<forall>d\<in>set ls. Port (Laddr c) = Port (Laddr d) \<longrightarrow> Type c = Type d)"
proof -
  let ?F = "firstOccurrences connKey ls"
  have m: "mset (fetchPorts h) = mset (map (portOf (processName h)) ?F)"
    unfolding ls by (rule fetchPorts_mset [OF p])
  have "size (mset (fetchPorts h)) = size (mset (map (portOf (processName h)) ?F))"
    by (simp only: m)
  then have "length (fetchPorts h) = length ?F" by simp
  also have "\<dots> = length (map connKey ?F)" by simp
  also have "\<dots> = card (set (map connKey ?F))"
    using firstOccurrences_props(2) [of connKey ls] by (rule distinct_card [symmetric])
  also have "\<dots> = card (connKey ` set ls)"
    by (simp add: firstOccurrences_props(3))
  finally show "length (fetchPorts h) = card (connKey ` set ls)" .
  have "image_mset port (mset (fetchPorts h))
      = image_mset port (mset (map (portOf (processName h)) ?F))"
    by (simp only: m)
  then have "mset (map port (fetchPorts h)) = mset (map (\<lambda>c. fst (connKey c)) ?F)"
    by (simp add: port_portOf comp_def multiset.map_comp)
  then have "distinct (map port (fetchPorts h)) = distinct (map (\<lambda>c. fst (connKey c)) ?F)"
    by (rule mset_eq_imp_distinct_iff)
  then show "sorted_wrt (<) (map port (fetchPorts h))
      = (\<forall>c\<in>set ls. \<forall>d\<in>set ls. Port (Laddr c) = Port (Laddr d) \<longrightarrow> Type c = Type d)"
    by (simp only: strict_sorted_iff fetchPorts_sorted_ports distinct_ports_iff simp_thms)
qed


text \<open>
  Claim C6, as the code has it. For every acquisition pass the derived port list is
  sorted ascending by port number and holds one record for each distinct
  (port number, socket type) pair among the listening entries. It is strictly
  ascending exactly when no two listening entries share a port number with different
  socket types, in particular whenever all listening entries have the same socket
  type; a port number on which sockets of different types listen occurs once per type.
\<close>

theorem fetchPorts_sorted:
  "sorted (map port (fetchPorts h))
   \<and> (\<forall>conns. portsCall h = Inr conns \<longrightarrow>
        length (fetchPorts h) = card (connKey ` set (filter (\<lambda>c. Status c = ''LISTEN'') conns))
        \<and> (sorted_wrt (<) (map port (fetchPorts h))
             = (\<forall>c\<in>set (filter (\<lambda>c. Status c = ''LISTEN'') conns).
                \<forall>d\<in>set (filter (\<lambda>c. Status c = ''LISTEN'') conns).
                  Port (Laddr c) = Port (Laddr d) \<longrightarrow> Type c = Type d))
        \<and> ((\<forall>c\<in>set (filter (\<lambda>c. Status c = ''LISTEN'') conns).
             \<forall>d\<in>set (filter (\<lambda>c. Status c = ''LISTEN'') conns). Type c = Type d)
             \<longrightarrow> sorted_wrt (<) (map port (fetchPorts h))))"
proof (intro conjI allI impI)
  show "sorted (map port (fetchPorts h))" by (rule fetchPorts_sorted_ports)
next
  fix conns assume p: "portsCall h = Inr conns"
  define ls where "ls = filter (\<lambda>c. Status c = ''LISTEN'') conns"
  note f = fetchPorts_count_and_strictness [OF p ls_def]
  show "length (fetchPorts h) = card (connKey ` set (filter (\<lambda>c. Status c = ''LISTEN'') conns))"
    using f(1) unfolding ls_def .
  show "sorted_wrt (<) (map port (fetchPorts h))
             = (\<forall>c\<in>set (filter (\<lambda>c. Status c = ''LISTEN'') conns).
                \<forall>d\<in>set (filter (\<lambda>c. Status c = ''LISTEN'') conns).
                  Port (Laddr c) = Port (Laddr d) \<longrightarrow> Type c = Type d)"
    using f(2) unfolding ls_def .
  assume "\<forall>c\<in>set (filter (\<lambda>c. Status c = ''LISTEN'') conns).
             \<forall>d\<in>set (filter (\<lambda>c. Status c = ''LISTEN'') conns). Type c = Type d"
  then have "\<forall>c\<in>set ls. \<forall>d\<in>set ls. Type c = Type d" unfolding ls_def .
  then have "\<forall>c\<in>set ls. \<forall>d\<in>set ls. Port (Laddr c) = Port (Laddr d) \<longrightarrow> Type c = Type d"
    by blast
  then show "sorted_wrt (<) (map port (fetchPorts h))" using f(2) by blast
qed

theorem fetchPorts_sorted_witness:
  "portsCall hostMixed =
     Inr [(listener 443 1 2 ''10.0.0.2'')\<lparr> Status := ''ESTABLISHED'' \<rparr>,
          listener 80 1 2 ''0.0.0.0'', listener 22 1 2 ''0.0.0.0'', listener 22 1 10 ''::'',
          listener 22 1 2 ''127.0.0.1'', listener 53 2 2 ''127.0.0.53'']
   \<and> length (fetchPorts hostMixed) = 3
   \<and> sorted_wrt (<) (map port (fetchPorts hostMixed))"
proof -
  let ?conns = "[(listener 443 1 2 ''10.0.0.2'')\<lparr> Status := ''ESTABLISHED'' \<rparr>,
          listener 80 1 2 ''0.0.0.0'', listener 22 1 2 ''0.0.0.0'', listener 22 1 10 ''::'',
          listener 22 1 2 ''127.0.0.1'', listener 53 2 2 ''127.0.0.53'']"
  have p: "portsCall hostMixed = Inr ?conns" by (simp add: hostMixed_def)
  have c: "card (connKey ` set (filter (\<lambda>c. Status c = ''LISTEN'') ?conns)) = 3"
    by code_simp
  have q: "\<forall>c\<in>set (filter (\<lambda>c. Status c = ''LISTEN'') ?conns).
           \<forall>d\<in>set (filter (\<lambda>c. Status c = ''LISTEN'') ?conns).
             Port (Laddr c) = Port (Laddr d) \<longrightarrow> Type c = Type d"
    by code_simp
  note t = fetchPorts_sorted [of hostMixed, THEN conjunct2, THEN spec, THEN mp, OF p]
  have l: "length (fetchPorts hostMixed) = 3"
    using t [THEN conjunct1] c by (rule trans)
  have s: "sorted_wrt (<) (map port (fetchPorts hostMixed))"
    using t [THEN conjunct2, THEN conjunct1] q by (rule iffD2)
  from p l s show ?thesis by (intro conjI)
qed

text \<open>
  The entries handed over are records with a socket type and a state label, and nothing
  ties the two together. A stream and a datagram entry in the listening state on port 53
  give two records with port 53.
\<close>

theorem fetchPorts_equal_ports:
  "map port (fetchPorts hostDns) = [53, 53]
   \<and> \<not> sorted_wrt (<) (map port (fetchPorts hostDns))"
  by code_simp

section \<open>Partial-failure isolation\<close>

lemma fetchInterfaces_loop_eq:
  "fetchInterfaces_loop ioMap netIfaces result =
     result @ map (ifaceOf ioMap) (filter (\<lambda>ni. Flags ni AND FlagLoopback = 0) netIfaces)"
proof (induction netIfaces arbitrary: result)
  case Nil
  then show ?case by simp
next
  case (Cons ni netIfaces)
  show ?case
  proof (cases "Flags ni AND FlagLoopback = 0")
    case False
    then show ?thesis by (simp add: Cons.IH)
  next
    case True
    then show ?thesis
      by (simp add: Cons.IH ifaceOf_def Let_def split: sum.split option.split)
  qed
qed

lemma fetchInterfaces_eq:
  "interfacesCall h = Inr netIfaces \<Longrightarrow>
   fetchInterfaces h =
     map (ifaceOf (ioMap_loop (fst (ioCountersCall h)) Map.empty))
       (filter (\<lambda>ni. Flags ni AND FlagLoopback = 0) netIfaces)"
  by (simp add: fetchInterfaces_def fetchInterfaces_loop_eq)

lemma fetchInterfaces_without_counters:
  "interfacesCall h = Inr netIfaces \<Longrightarrow> fst (ioCountersCall h) = [] \<Longrightarrow>
   length (fetchInterfaces h) = length (filter (\<lambda>ni. Flags ni AND FlagLoopback = 0) netIfaces)
   \<and> (\<forall>ifc \<in> set (fetchInterfaces h). rx ifc = 0 \<and> tx ifc = 0)"
  by (auto simp: fetchInterfaces_eq ifaceOf_def)


text \<open>
  Claim C5. Each of the three fetchers starts with its own acquisition call. When that
  call fails the fetcher's list is empty; replacing the result of one fetcher's call by
  anything else (a failure included) leaves the lists of the other two categories as they
  were. In particular a failed connection enumeration with a successful interface
  enumeration gives an empty connection list and the interface list built from every
  non-loopback interface.
\<close>

theorem fetchData_failure_isolation:
  "(connectionsCall h = Inl e \<longrightarrow> dataMsg.connections (fetchData h) = [])
   \<and> (portsCall h = Inl e \<longrightarrow> dataMsg.ports (fetchData h) = [])
   \<and> (interfacesCall h = Inl e \<longrightarrow> dataMsg.interfaces (fetchData h) = [])
   \<and> dataMsg.ports (fetchData (h\<lparr>connectionsCall := r\<rparr>)) = dataMsg.ports (fetchData h)
   \<and> dataMsg.interfaces (fetchData (h\<lparr>connectionsCall := r\<rparr>)) = dataMsg.interfaces (fetchData h)
   \<and> dataMsg.connections (fetchData (h\<lparr>portsCall := r\<rparr>)) = dataMsg.connections (fetchData h)
   \<and> dataMsg.interfaces (fetchData (h\<lparr>portsCall := r\<rparr>)) = dataMsg.interfaces (fetchData h)
   \<and> dataMsg.connections (fetchData (h\<lparr>interfacesCall := r'\<rparr>)) = dataMsg.connections (fetchData h)
   \<and> dataMsg.ports (fetchData (h\<lparr>interfacesCall := r'\<rparr>)) = dataMsg.ports (fetchData h)
   \<and> (connectionsCall h = Inl e \<and> interfacesCall h = Inr netIfaces \<longrightarrow>
        dataMsg.connections (fetchData h) = []
        \<and> dataMsg.interfaces (fetchData h) =
            map (ifaceOf (ioMap_loop (fst (ioCountersCall h)) Map.empty))
              (filter (\<lambda>ni. Flags ni AND FlagLoopback = 0) netIfaces))"
  by (simp add: fetchData_def fetchConnections_def fetchPorts_def fetchInterfaces_def
      fetchInterfaces_loop_eq split: sum.split)

theorem fetchData_failure_isolation_witness:
  "connectionsCall hostNoConnections = Inl (Error ''permission denied'')
   \<and> dataMsg.connections (fetchData hostNoConnections) = []
   \<and> dataMsg.interfaces (fetchData hostNoConnections) =
       [\<lparr> name = ''eth0'', up = True, addrs = [''10.0.0.2/24''], rx = 4096, tx = 2048 \<rparr>]"
proof -
  let ?nis = "[\<lparr> Interface.Name = ''lo'', Flags = 5, Addrs = Inr [''127.0.0.1/8''] \<rparr>,
               \<lparr> Interface.Name = ''eth0'', Flags = 1, Addrs = Inr [''10.0.0.2/24''] \<rparr>]"
  have c: "connectionsCall hostNoConnections = Inl (Error ''permission denied'')"
    by (simp add: hostNoConnections_def)
  have i: "interfacesCall hostNoConnections = Inr ?nis"
    by (simp add: hostNoConnections_def)
  from fetchData_failure_isolation [of hostNoConnections "Error ''permission denied''" _ _ ?nis] c i
  have "dataMsg.connections (fetchData hostNoConnections) = []
        \<and> dataMsg.interfaces (fetchData hostNoConnections) =
            map (ifaceOf (ioMap_loop (fst (ioCountersCall hostNoConnections)) Map.empty))
              (filter (\<lambda>ni. Flags ni AND FlagLoopback = 0) ?nis)"
    by blast
  moreover have "map (ifaceOf (ioMap_loop (fst (ioCountersCall hostNoConnections)) Map.empty))
              (filter (\<lambda>ni. Flags ni AND FlagLoopback = 0) ?nis) =
       [\<lparr> name = ''eth0'', up = True, addrs = [''10.0.0.2/24''], rx = 4096, tx = 2048 \<rparr>]"
    by code_simp
  ultimately show ?thesis using c by simp
qed

section \<open>Navigation\<close>

subsection \<open>One key class at a time\<close>

lemma handleKey_quit: "key \<in> quitKeys \<Longrightarrow> handleKey m key = (m, Quit)"
  unfolding quitKeys_def by (elim insertE emptyE) (simp_all add: handleKey_def)

lemma handleKey_forward:
  "key \<in> forwardKeys \<Longrightarrow>
   handleKey m key = (m\<lparr>tab := go_rem (tab m + 1) 3, cursor := 0, offset := 0\<rparr>, NoCmd)"
  unfolding forwardKeys_def by (elim insertE emptyE) (simp_all add: handleKey_def)


lemma handleKey_backward:
  "key \<in> backwardKeys \<Longrightarrow>
   handleKey m key = (m\<lparr>tab := go_rem (tab m + 2) 3, cursor := 0, offset := 0\<rparr>, NoCmd)"
  unfolding backwardKeys_def by (elim insertE emptyE) (simp_all add: handleKey_def)

lemma handleKey_down:
  "key \<in> downKeys \<Longrightarrow> handleKey m key = (clampCursor (m\<lparr>cursor := cursor m + 1\<rparr>), NoCmd)"
  unfolding downKeys_def by (elim insertE emptyE) (simp_all add: handleKey_def)

lemma handleKey_up:
  "key \<in> upKeys \<Longrightarrow>
   handleKey m key = ((if cursor m > 0 then m\<lparr>cursor := cursor m - 1\<rparr> else m), NoCmd)"
  unfolding upKeys_def by (elim insertE emptyE) (simp_all add: handleKey_def)

lemma handleKey_home:
  "key \<in> homeKeys \<Longrightarrow> handleKey m key = (m\<lparr>cursor := 0, offset := 0\<rparr>, NoCmd)"
  unfolding homeKeys_def by (elim insertE emptyE) (simp_all add: handleKey_def)

lemma handleKey_end:
  "key \<in> endKeys \<Longrightarrow> handleKey m key = (clampCursor (m\<lparr>cursor := listLen m - 1\<rparr>), NoCmd)"
  unfolding endKeys_def by (elim insertE emptyE) (simp_all add: handleKey_def)

lemma handleKey_select:
  "handleKey m ''1'' = (m\<lparr>tab := tabConnections, cursor := 0, offset := 0\<rparr>, NoCmd)"
  "handleKey m ''2'' = (m\<lparr>tab := tabPorts, cursor := 0, offset := 0\<rparr>, NoCmd)"
  "handleKey m ''3'' = (m\<lparr>tab := tabInterfaces, cursor := 0, offset := 0\<rparr>, NoCmd)"
  by (simp_all add: handleKey_def)

lemma handleKey_other:
  "key \<notin> quitKeys \<Longrightarrow> key \<notin> forwardKeys \<Longrightarrow> key \<notin> backwardKeys \<Longrightarrow> key \<notin> downKeys \<Longrightarrow>
   key \<notin> upKeys \<Longrightarrow> key \<notin> homeKeys \<Longrightarrow> key \<notin> endKeys \<Longrightarrow> key \<notin> selectKeys \<Longrightarrow>
   handleKey m key = (m, NoCmd)"
  by (simp add: handleKey_def quitKeys_def forwardKeys_def backwardKeys_def downKeys_def
      upKeys_def homeKeys_def endKeys_def selectKeys_def)


lemma press_forward:
  "key \<in> forwardKeys \<Longrightarrow> press m key = m\<lparr>tab := go_rem (tab m + 1) 3, cursor := 0, offset := 0\<rparr>"
  by (simp add: press_def handleKey_forward)

lemma press_backward:
  "key \<in> backwardKeys \<Longrightarrow> press m key = m\<lparr>tab := go_rem (tab m + 2) 3, cursor := 0, offset := 0\<rparr>"
  by (simp add: press_def handleKey_backward)

lemma press_select:
  "press m ''1'' = m\<lparr>tab := tabConnections, cursor := 0, offset := 0\<rparr>"
  "press m ''2'' = m\<lparr>tab := tabPorts, cursor := 0, offset := 0\<rparr>"
  "press m ''3'' = m\<lparr>tab := tabInterfaces, cursor := 0, offset := 0\<rparr>"
  by (simp_all add: press_def handleKey_select)

lemma go_rem_3_forward:
  "t = 0 \<or> t = 1 \<or> t = 2 \<Longrightarrow> go_rem (go_rem (go_rem (t + 1) 3 + 1) 3 + 1) 3 = t"
  by (auto simp: go_rem_def)

lemma go_rem_3_backward:
  "t = 0 \<or> t = 1 \<or> t = 2 \<Longrightarrow> go_rem (go_rem (go_rem (t + 2) 3 + 2) 3 + 2) 3 = t"
  by (auto simp: go_rem_def)


text \<open>
  Claim C8. From every state whose tab is one of the three tabs, three presses of
  tab-forward keys (\<open>tab\<close>, \<open>l\<close>, \<open>right\<close>) return to the starting tab, and so do three
  presses of tab-backward keys (\<open>shift+tab\<close>, \<open>h\<close>, \<open>left\<close>); every tab-forward,
  tab-backward and direct selection key (\<open>1\<close>, \<open>2\<close>, \<open>3\<close>) leaves cursor and offset at 0,
  and the direct selection keys select their tab.
\<close>

theorem tab_cycle:
  assumes "validTab m"
  shows "(\<forall>k1\<in>forwardKeys. \<forall>k2\<in>forwardKeys. \<forall>k3\<in>forwardKeys.
            tab (press (press (press m k1) k2) k3) = tab m)
       \<and> (\<forall>k1\<in>backwardKeys. \<forall>k2\<in>backwardKeys. \<forall>k3\<in>backwardKeys.
            tab (press (press (press m k1) k2) k3) = tab m)
       \<and> (\<forall>k\<in>forwardKeys \<union> backwardKeys \<union> selectKeys.
            cursor (press m k) = 0 \<and> offset (press m k) = 0)
       \<and> tab (press m ''1'') = tabConnections \<and> tab (press m ''2'') = tabPorts
       \<and> tab (press m ''3'') = tabInterfaces"
proof -
  from assms have t: "tab m = 0 \<or> tab m = 1 \<or> tab m = 2"
    by (simp add: validTab_def tabConnections_def tabPorts_def tabInterfaces_def)
  have f: "\<forall>k1\<in>forwardKeys. \<forall>k2\<in>forwardKeys. \<forall>k3\<in>forwardKeys.
            tab (press (press (press m k1) k2) k3) = tab m"
    using go_rem_3_forward [OF t] by (simp add: press_forward)
  have b: "\<forall>k1\<in>backwardKeys. \<forall>k2\<in>backwardKeys. \<forall>k3\<in>backwardKeys.
            tab (press (press (press m k1) k2) k3) = tab m"
    using go_rem_3_backward [OF t] by (simp add: press_backward)
  have s: "\<forall>k\<in>selectKeys. cursor (press m k) = 0 \<and> offset (press m k) = 0"
    unfolding selectKeys_def by (simp add: press_select)
  have r: "\<forall>k\<in>forwardKeys \<union> backwardKeys \<union> selectKeys.
            cursor (press m k) = 0 \<and> offset (press m k) = 0"
  proof
    fix k assume "k \<in> forwardKeys \<union> backwardKeys \<union> selectKeys"
    then consider "k \<in> forwardKeys" | "k \<in> backwardKeys" | "k \<in> selectKeys" by blast
    then show "cursor (press m k) = 0 \<and> offset (press m k) = 0"
    proof cases
      case 1 then show ?thesis by (simp add: press_forward)
    next
      case 2 then show ?thesis by (simp add: press_backward)
    next
      case 3 with s show ?thesis by simp
    qed
  qed
  from f b r show ?thesis by (simp add: press_select)
qed

theorem tab_cycle_witness:
  "validTab newModel
   \<and> tab (press (press (press newModel ''tab'') ''l'') ''right'') = tab newModel
   \<and> tab (press (press (press newModel ''h'') ''left'') ''shift+tab'') = tab newModel
   \<and> cursor (press newModel ''2'') = 0 \<and> offset (press newModel ''2'') = 0"
proof -
  have v: "validTab newModel" by (simp add: validTab_def newModel_def)
  have k: "''tab'' \<in> forwardKeys" "''l'' \<in> forwardKeys" "''right'' \<in> forwardKeys"
    "''h'' \<in> backwardKeys" "''left'' \<in> backwardKeys" "''shift+tab'' \<in> backwardKeys"
    "''2'' \<in> forwardKeys \<union> backwardKeys \<union> selectKeys"
    by (simp_all add: forwardKeys_def backwardKeys_def selectKeys_def)
  note c = tab_cycle [OF v]
  from c k(1,2,3) have "tab (press (press (press newModel ''tab'') ''l'') ''right'') = tab newModel"
    by (elim conjE) (erule ballE, erule ballE, erule ballE, simp_all)
  moreover from c k(4,5,6)
  have "tab (press (press (press newModel ''h'') ''left'') ''shift+tab'') = tab newModel"
    by (elim conjE) (erule_tac x = "''h''" in ballE, erule_tac x = "''left''" in ballE,
        erule_tac x = "''shift+tab''" in ballE, simp_all)
  moreover from c k(7) have "cursor (press newModel ''2'') = 0 \<and> offset (press newModel ''2'') = 0"
    by (elim conjE) (erule_tac x = "''2''" in ballE, simp_all)
  ultimately show ?thesis using v by simp
qed


subsection \<open>The cursor\<close>

lemma listLen_nonneg: "0 \<le> listLen m"
  by (simp add: listLen_def)

lemma listLen_cursor_update [simp]: "listLen (m\<lparr>cursor := c\<rparr>) = listLen m"
  by (simp add: listLen_def)

lemma listLen_offset_update [simp]: "listLen (m\<lparr>offset := c\<rparr>) = listLen m"
  by (simp add: listLen_def)

lemma listLen_width_update [simp]: "listLen (m\<lparr>width := c\<rparr>) = listLen m"
  by (simp add: listLen_def)

lemma listLen_height_update [simp]: "listLen (m\<lparr>height := c\<rparr>) = listLen m"
  by (simp add: listLen_def)

lemma clampCursor_upper: "cursor (clampCursor m) \<le> max (listLen m - 1) 0"
  by (simp add: clampCursor_def Let_def)

lemma clampCursor_lower: "0 \<le> cursor m \<Longrightarrow> 0 \<le> cursor (clampCursor m)"
  by (simp add: clampCursor_def Let_def)

lemma clampCursor_lower1: "- 1 \<le> cursor m \<Longrightarrow> - 1 \<le> cursor (clampCursor m)"
  by (simp add: clampCursor_def Let_def)

lemma listLen_clampCursor [simp]: "listLen (clampCursor m) = listLen m"
  by (simp add: clampCursor_def Let_def)

lemma clampCursor_other [simp]:
  "tab (clampCursor m) = tab m" "offset (clampCursor m) = offset m"
  "width (clampCursor m) = width m" "height (clampCursor m) = height m"
  by (simp_all add: clampCursor_def Let_def)


lemma handleKey_rule:
  assumes same: "P m"
    and switch: "\<And>t. t = go_rem (tab m + 1) 3 \<or> t = go_rem (tab m + 2) 3 \<or> t = tabConnections
            \<or> t = tabPorts \<or> t = tabInterfaces \<Longrightarrow> P (m\<lparr>tab := t, cursor := 0, offset := 0\<rparr>)"
    and down: "P (clampCursor (m\<lparr>cursor := cursor m + 1\<rparr>))"
    and up: "0 < cursor m \<Longrightarrow> P (m\<lparr>cursor := cursor m - 1\<rparr>)"
    and home: "P (m\<lparr>cursor := 0, offset := 0\<rparr>)"
    and jend: "key \<in> endKeys \<Longrightarrow> P (clampCursor (m\<lparr>cursor := listLen m - 1\<rparr>))"
  shows "P (fst (handleKey m key))"
proof -
  consider (quit) "key \<in> quitKeys" | (fwd) "key \<in> forwardKeys" | (bwd) "key \<in> backwardKeys"
    | (down) "key \<in> downKeys" | (up) "key \<in> upKeys" | (home) "key \<in> homeKeys"
    | (jend) "key \<in> endKeys" | (sel) "key \<in> selectKeys"
    | (other) "key \<notin> quitKeys" "key \<notin> forwardKeys" "key \<notin> backwardKeys" "key \<notin> downKeys"
        "key \<notin> upKeys" "key \<notin> homeKeys" "key \<notin> endKeys" "key \<notin> selectKeys"
    by blast
  then show ?thesis
  proof cases
    case quit
    then have "fst (handleKey m key) = m" by (simp add: handleKey_quit)
    with same show ?thesis by simp
  next
    case fwd
    then have "fst (handleKey m key) = m\<lparr>tab := go_rem (tab m + 1) 3, cursor := 0, offset := 0\<rparr>"
      by (simp add: handleKey_forward)
    moreover have "P (m\<lparr>tab := go_rem (tab m + 1) 3, cursor := 0, offset := 0\<rparr>)"
      by (rule switch) simp
    ultimately show ?thesis by simp
  next
    case bwd
    then have "fst (handleKey m key) = m\<lparr>tab := go_rem (tab m + 2) 3, cursor := 0, offset := 0\<rparr>"
      by (simp add: handleKey_backward)
    moreover have "P (m\<lparr>tab := go_rem (tab m + 2) 3, cursor := 0, offset := 0\<rparr>)"
      by (rule switch) simp
    ultimately show ?thesis by simp
  next
    case down
    then have "fst (handleKey m key) = clampCursor (m\<lparr>cursor := cursor m + 1\<rparr>)"
      by (simp add: handleKey_down)
    with assms(3) show ?thesis by simp
  next
    case up
    then have e: "fst (handleKey m key) = (if cursor m > 0 then m\<lparr>cursor := cursor m - 1\<rparr> else m)"
      by (simp add: handleKey_up)
    show ?thesis
    proof (cases "0 < cursor m")
      case True
      with e assms(4) show ?thesis by simp
    next
      case False
      with e same show ?thesis by simp
    qed
  next
    case home
    then have "fst (handleKey m key) = m\<lparr>cursor := 0, offset := 0\<rparr>"
      by (simp add: handleKey_home)
    with assms(5) show ?thesis by simp
  next
    case jend
    then have "fst (handleKey m key) = clampCursor (m\<lparr>cursor := listLen m - 1\<rparr>)"
      by (simp add: handleKey_end)
    with assms(6) [OF jend] show ?thesis by simp
  next
    case sel
    then have k: "key = ''1'' \<or> key = ''2'' \<or> key = ''3''" by (simp add: selectKeys_def)
    have p: "P (m\<lparr>tab := tabConnections, cursor := 0, offset := 0\<rparr>)"
      "P (m\<lparr>tab := tabPorts, cursor := 0, offset := 0\<rparr>)"
      "P (m\<lparr>tab := tabInterfaces, cursor := 0, offset := 0\<rparr>)"
      by (rule switch, simp)+
    from k show ?thesis
    proof (elim disjE)
      assume "key = ''1''" then show ?thesis using p(1) by (simp only: handleKey_select fst_conv)
    next
      assume "key = ''2''" then show ?thesis using p(2) by (simp only: handleKey_select fst_conv)
    next
      assume "key = ''3''" then show ?thesis using p(3) by (simp only: handleKey_select fst_conv)
    qed
  next
    case other
    then have "fst (handleKey m key) = m" by (simp add: handleKey_other)
    with same show ?thesis by simp
  qed
qed


lemma Update_rule:
  assumes same: "P m"
    and switch: "\<And>t. t = go_rem (tab m + 1) 3 \<or> t = go_rem (tab m + 2) 3 \<or> t = tabConnections
            \<or> t = tabPorts \<or> t = tabInterfaces \<Longrightarrow> P (m\<lparr>tab := t, cursor := 0, offset := 0\<rparr>)"
    and down: "P (clampCursor (m\<lparr>cursor := cursor m + 1\<rparr>))"
    and up: "0 < cursor m \<Longrightarrow> P (m\<lparr>cursor := cursor m - 1\<rparr>)"
    and home: "P (m\<lparr>cursor := 0, offset := 0\<rparr>)"
    and jend: "\<And>key. key \<in> endKeys \<Longrightarrow> ms = KeyMsg key \<Longrightarrow>
                 P (clampCursor (m\<lparr>cursor := listLen m - 1\<rparr>))"
    and resize: "\<And>w h. P (m\<lparr>width := w, height := h\<rparr>)"
    and refresh: "\<And>d :: dataMsg. P (clampCursor (m\<lparr>model.connections := dataMsg.connections d,
                          model.ports := dataMsg.ports d,
                          model.interfaces := dataMsg.interfaces d\<rparr>))"
  shows "P (fst (Update m ms))"
proof (cases ms)
  case (KeyMsg key)
  have "P (fst (handleKey m key))"
    using same switch down up home jend [OF _ KeyMsg] by (rule handleKey_rule)
  with KeyMsg show ?thesis by (simp add: Update_def)
next
  case (WindowSizeMsg w h)
  with resize [where w = w and h = h] show ?thesis by (simp add: Update_def)
next
  case TickMsg
  with same show ?thesis by (simp add: Update_def)
next
  case (DataMsg d)
  with refresh [where d = d] show ?thesis by (simp add: Update_def)
next
  case OtherMsg
  with same show ?thesis by (simp add: Update_def)
qed

lemma listLen_resize [simp]: "listLen (m\<lparr>width := w, height := h\<rparr>) = listLen m"
  by (simp add: listLen_def)

lemma Update_cursor_upper:
  assumes "cursor m \<le> max (listLen m - 1) 0"
  shows "cursor (fst (Update m ms)) \<le> max (listLen (fst (Update m ms)) - 1) 0"
proof (rule Update_rule)
  show "cursor m \<le> max (listLen m - 1) 0" by (rule assms)
next
  fix t show "cursor (m\<lparr>tab := t, cursor := 0, offset := 0\<rparr>)
      \<le> max (listLen (m\<lparr>tab := t, cursor := 0, offset := 0\<rparr>) - 1) 0" by simp
next
  show "cursor (clampCursor (m\<lparr>cursor := cursor m + 1\<rparr>))
      \<le> max (listLen (clampCursor (m\<lparr>cursor := cursor m + 1\<rparr>)) - 1) 0"
    using clampCursor_upper [of "m\<lparr>cursor := cursor m + 1\<rparr>"] by simp
next
  show "cursor (m\<lparr>cursor := cursor m - 1\<rparr>) \<le> max (listLen (m\<lparr>cursor := cursor m - 1\<rparr>) - 1) 0"
    using assms by simp
next
  show "cursor (m\<lparr>cursor := 0, offset := 0\<rparr>) \<le> max (listLen (m\<lparr>cursor := 0, offset := 0\<rparr>) - 1) 0"
    by simp
next
  show "cursor (clampCursor (m\<lparr>cursor := listLen m - 1\<rparr>))
      \<le> max (listLen (clampCursor (m\<lparr>cursor := listLen m - 1\<rparr>)) - 1) 0"
    using clampCursor_upper [of "m\<lparr>cursor := listLen m - 1\<rparr>"] by simp
next
  fix w h show "cursor (m\<lparr>width := w, height := h\<rparr>) \<le> max (listLen (m\<lparr>width := w, height := h\<rparr>) - 1) 0"
    using assms by simp
next
  fix d :: dataMsg
  let ?m = "m\<lparr>model.connections := dataMsg.connections d, model.ports := dataMsg.ports d,
               model.interfaces := dataMsg.interfaces d\<rparr>"
  show "cursor (clampCursor ?m) \<le> max (listLen (clampCursor ?m) - 1) 0"
    using clampCursor_upper [of ?m] by simp
qed

lemma Update_cursor_lower:
  assumes "0 \<le> cursor m"
    and "\<not> ((\<exists>key\<in>endKeys. ms = KeyMsg key) \<and> listLen m = 0)"
  shows "0 \<le> cursor (fst (Update m ms))"
proof (rule Update_rule)
  fix key assume "key \<in> endKeys" "ms = KeyMsg key"
  with assms(2) have "listLen m \<noteq> 0" by blast
  with listLen_nonneg [of m] have "0 \<le> cursor (m\<lparr>cursor := listLen m - 1\<rparr>)" by simp
  then show "0 \<le> cursor (clampCursor (m\<lparr>cursor := listLen m - 1\<rparr>))" by (rule clampCursor_lower)
qed (use assms(1) in \<open>simp_all add: clampCursor_lower\<close>)

lemma Update_cursor_ge_minus_one:
  assumes "- 1 \<le> cursor m"
  shows "- 1 \<le> cursor (fst (Update m ms))"
proof (rule Update_rule)
  have "- 1 \<le> cursor (m\<lparr>cursor := listLen m - 1\<rparr>)" using listLen_nonneg [of m] by simp
  then show "- 1 \<le> cursor (clampCursor (m\<lparr>cursor := listLen m - 1\<rparr>))" by (rule clampCursor_lower1)
qed (use assms in \<open>simp_all add: clampCursor_lower1\<close>)

lemma go_rem_3_range: "t = 0 \<or> t = 1 \<or> t = 2 \<Longrightarrow>
  (go_rem (t + 1) 3 = 0 \<or> go_rem (t + 1) 3 = 1 \<or> go_rem (t + 1) 3 = 2)
  \<and> (go_rem (t + 2) 3 = 0 \<or> go_rem (t + 2) 3 = 1 \<or> go_rem (t + 2) 3 = 2)"
  by (auto simp: go_rem_def)

lemma Update_validTab:
  assumes "validTab m"
  shows "validTab (fst (Update m ms))"
proof (rule Update_rule)
  fix t assume "t = go_rem (tab m + 1) 3 \<or> t = go_rem (tab m + 2) 3 \<or> t = tabConnections
            \<or> t = tabPorts \<or> t = tabInterfaces"
  moreover from assms have "tab m = 0 \<or> tab m = 1 \<or> tab m = 2"
    by (simp add: validTab_def tabConnections_def tabPorts_def tabInterfaces_def)
  ultimately show "validTab (m\<lparr>tab := t, cursor := 0, offset := 0\<rparr>)"
    using go_rem_3_range [of "tab m"]
    by (auto simp: validTab_def tabConnections_def tabPorts_def tabInterfaces_def)
qed (use assms in \<open>simp_all add: validTab_def\<close>)

lemma Update_offset:
  assumes "offset m = 0"
  shows "offset (fst (Update m ms)) = 0"
  by (rule Update_rule) (use assms in simp_all)

lemma run_invariant:
  assumes "validTab m" "offset m = 0" "- 1 \<le> cursor m" "cursor m \<le> max (listLen m - 1) 0"
  shows "validTab (run m msgs) \<and> offset (run m msgs) = 0 \<and> - 1 \<le> cursor (run m msgs)
         \<and> cursor (run m msgs) \<le> max (listLen (run m msgs) - 1) 0"
  using assms
proof (induction msgs arbitrary: m)
  case Nil
  then show ?case by simp
next
  case (Cons ms msgs)
  obtain m' c where u: "Update m ms = (m', c)" by (cases "Update m ms")
  then have m': "m' = fst (Update m ms)" by simp
  have inv: "validTab m'" "offset m' = 0" "- 1 \<le> cursor m'" "cursor m' \<le> max (listLen m' - 1) 0"
    unfolding m'
    using Cons.prems
    by (simp_all add: Update_validTab Update_offset Update_cursor_ge_minus_one Update_cursor_upper)
  show ?case
  proof (cases "c = Quit")
    case True
    with u inv show ?thesis by simp
  next
    case False
    with u Cons.IH [OF inv] show ?thesis by simp
  qed
qed

lemma reachable_invariant:
  "validTab (run newModel msgs) \<and> offset (run newModel msgs) = 0
   \<and> - 1 \<le> cursor (run newModel msgs)
   \<and> cursor (run newModel msgs) \<le> max (listLen (run newModel msgs) - 1) 0"
  by (rule run_invariant) (simp_all add: newModel_def validTab_def)

text \<open>
  Claim C1, at the input where the code departs from it. Jump-end (\<open>G\<close>, \<open>end\<close>) on
  an empty active list assigns \<open>listLen - 1 = -1\<close> to the cursor, and \<open>clampCursor\<close>
  only lowers a cursor above its maximum: the cursor stays at \<open>-1\<close>, below the bound
  \<open>0 \<le> cursor\<close> the claim states. The lemmas above show the rest of the claim on the
  code: the upper bound \<open>cursor \<le> max (listLen - 1) 0\<close> holds after every transition
  (\<open>Update_cursor_upper\<close>), and \<open>0 \<le> cursor\<close> is kept by every transition other than
  jump-end on an empty list (\<open>Update_cursor_lower\<close>).
\<close>

theorem jump_end_on_empty_list:
  "listLen newModel = 0
   \<and> fst (Update newModel (KeyMsg ''G'')) = newModel\<lparr>cursor := - 1\<rparr>
   \<and> fst (Update newModel (KeyMsg ''end'')) = newModel\<lparr>cursor := - 1\<rparr>
   \<and> \<not> 0 \<le> cursor (fst (Update newModel (KeyMsg ''G'')))"
proof -
  have e: "''G'' \<in> endKeys" "''end'' \<in> endKeys" by (simp_all add: endKeys_def)
  have l: "listLen newModel = 0" by (simp add: listLen_def newModel_def)
  have c: "clampCursor (newModel\<lparr>cursor := - 1\<rparr>) = newModel\<lparr>cursor := - 1\<rparr>"
    using l by (simp add: clampCursor_def Let_def)
  show ?thesis using l c by (simp add: Update_def handleKey_end [OF e(1)] handleKey_end [OF e(2)])
qed

section \<open>Rendering\<close>

lemma adjustOffset_as_update: "adjustOffset m p = m\<lparr>offset := offset (adjustOffset m p)\<rparr>"
  by (simp add: adjustOffset_def)

lemma adjustOffset_fields [simp]:
  "cursor (adjustOffset m p) = cursor m" "tab (adjustOffset m p) = tab m"
  "model.connections (adjustOffset m p) = model.connections m"
  "model.ports (adjustOffset m p) = model.ports m"
  "model.interfaces (adjustOffset m p) = model.interfaces m"
  by (simp_all add: adjustOffset_def)

lemma adjustOffset_nonneg: "0 \<le> cursor m \<Longrightarrow> 0 \<le> offset m \<Longrightarrow> 0 \<le> offset (adjustOffset m p)"
  by (simp add: adjustOffset_def)

lemma view_receivers:
  "snd (viewConnections L m h) = adjustOffset m (h - 1)"
  "snd (viewPorts L m h) = adjustOffset m (h - 1)"
  "snd (viewInterfaces L m h) = adjustOffset m (h - 1)"
  by (simp_all add: viewConnections_def viewPorts_def viewInterfaces_def Let_def)


text \<open>
  Claim C2, as the code has it. After \<open>adjustOffset\<close>,
  \<open>offset \<le> cursor < offset + pageSize\<close> holds whenever \<open>pageSize \<ge> 1\<close>. The
  floor at 1 is applied to the content height \<open>height - 5\<close>; the views pass that
  height minus one (the column header row) as page size, so the page size used for the
  adjustment is \<open>max (height - 5) 1 - 1\<close>: never negative, and at least 1 exactly when
  the viewport is at least 7 rows high.
\<close>

theorem adjustOffset_window:
  "(1 \<le> pageSize \<longrightarrow>
      offset (adjustOffset m pageSize) \<le> cursor (adjustOffset m pageSize)
      \<and> cursor (adjustOffset m pageSize) < offset (adjustOffset m pageSize) + pageSize)
   \<and> snd (viewConnections L m (contentHeight m)) = adjustOffset m (contentHeight m - 1)
   \<and> snd (viewPorts L m (contentHeight m)) = adjustOffset m (contentHeight m - 1)
   \<and> snd (viewInterfaces L m (contentHeight m)) = adjustOffset m (contentHeight m - 1)
   \<and> contentHeight m - 1 = max (height m - 5) 1 - 1
   \<and> 0 \<le> contentHeight m - 1
   \<and> (1 \<le> contentHeight m - 1) = (7 \<le> height m)"
proof -
  have a: "1 \<le> pageSize \<longrightarrow>
      offset (adjustOffset m pageSize) \<le> cursor (adjustOffset m pageSize)
      \<and> cursor (adjustOffset m pageSize) < offset (adjustOffset m pageSize) + pageSize"
    by (simp add: adjustOffset_def)
  have b: "contentHeight m - 1 = max (height m - 5) 1 - 1" "0 \<le> contentHeight m - 1"
    "(1 \<le> contentHeight m - 1) = (7 \<le> height m)"
    by (auto simp: contentHeight_def Let_def)
  from a b show ?thesis by (simp add: view_receivers)
qed

theorem adjustOffset_window_witness:
  "(1 :: int) \<le> 3
   \<and> offset (adjustOffset (newModel\<lparr>cursor := 10\<rparr>) 3) \<le> cursor (adjustOffset (newModel\<lparr>cursor := 10\<rparr>) 3)
   \<and> cursor (adjustOffset (newModel\<lparr>cursor := 10\<rparr>) 3) < offset (adjustOffset (newModel\<lparr>cursor := 10\<rparr>) 3) + 3
   \<and> offset (adjustOffset (newModel\<lparr>cursor := 10\<rparr>) 3) = 8"
proof -
  have h: "(1 :: int) \<le> 3" by simp
  have "offset (adjustOffset (newModel\<lparr>cursor := 10\<rparr>) 3) = 8"
    by (simp add: adjustOffset_def newModel_def)
  with adjustOffset_window [of 3 "newModel\<lparr>cursor := 10\<rparr>"] h show ?thesis by blast
qed


text \<open>A viewport of 5 rows: the page size is 0 and the adjustment moves the offset of
  the view's copy to 1, above the cursor 0.\<close>

theorem degenerate_window_offset_above_cursor:
  "height (run newModel [WindowSizeMsg 80 5]) - 5 \<le> 0
   \<and> contentHeight (run newModel [WindowSizeMsg 80 5]) - 1 = 0
   \<and> cursor (snd (viewConnections plainLibs (run newModel [WindowSizeMsg 80 5])
                    (contentHeight (run newModel [WindowSizeMsg 80 5])))) = 0
   \<and> offset (snd (viewConnections plainLibs (run newModel [WindowSizeMsg 80 5])
                    (contentHeight (run newModel [WindowSizeMsg 80 5])))) = 1"
  by code_simp


text \<open>
  Claim C4, as the code has it. The frame is a function of the navigation state, the
  three record lists and the wall clock that \<open>viewHeader\<close> reads: two renders of the
  same state at clock readings within the same second give the same frame. The three
  views assign nothing but the scroll offset, and they do it on the copy of the state
  that \<open>viewContent\<close> receives: \<open>View\<close> returns the frame only, the state and the
  lists held by the program stay as they are.
\<close>

theorem View_same_second:
  "(now div 1000000000 = now' div 1000000000 \<longrightarrow> View L now m = View L now' m)
   \<and> snd (viewConnections L m h) = m\<lparr>offset := offset (adjustOffset m (h - 1))\<rparr>
   \<and> snd (viewPorts L m h) = m\<lparr>offset := offset (adjustOffset m (h - 1))\<rparr>
   \<and> snd (viewInterfaces L m h) = m\<lparr>offset := offset (adjustOffset m (h - 1))\<rparr>"
proof -
  have "now div 1000000000 = now' div 1000000000 \<longrightarrow> View L now m = View L now' m"
    by (simp add: View_def viewHeader_def formatClock_def)
  moreover have "adjustOffset m (h - 1) = m\<lparr>offset := offset (adjustOffset m (h - 1))\<rparr>"
    by (rule adjustOffset_as_update)
  ultimately show ?thesis unfolding view_receivers by blast
qed

theorem View_same_second_witness:
  "(0 :: nat) div 1000000000 = 999999999 div 1000000000
   \<and> View plainLibs 0 (run newModel [WindowSizeMsg 80 24])
       = View plainLibs 999999999 (run newModel [WindowSizeMsg 80 24])"
proof -
  have h: "(0 :: nat) div 1000000000 = 999999999 div 1000000000" by simp
  with View_same_second [of 0 999999999 plainLibs "run newModel [WindowSizeMsg 80 24]"]
  show ?thesis by blast
qed


text \<open>Two renders of the same state one second apart differ.\<close>

theorem View_depends_on_clock:
  "View plainLibs 0 (run newModel [WindowSizeMsg 80 24])
     \<noteq> View plainLibs 1000000000 (run newModel [WindowSizeMsg 80 24])"
  by code_simp


subsection \<open>Indices touched by the row loops\<close>

lemma rowsLoop_in_range:
  "0 \<le> i \<Longrightarrow> e \<le> int (length xs) \<Longrightarrow> (\<And>j x. \<exists>s. line j x = Inr s) \<Longrightarrow>
   \<exists>s. rowsLoop line xs i e b = Inr s"
proof (induction line xs i e b rule: rowsLoop.induct)
  case (1 line xs i e b)
  show ?case
  proof (cases "i < e")
    case False
    then show ?thesis by (simp add: rowsLoop.simps)
  next
    case True
    with "1.prems"(1,2) have r: "0 \<le> i \<and> i < int (length xs)" by simp
    from "1.prems"(3) obtain l where l: "line i (xs ! nat i) = Inr l" by blast
    have "\<exists>s. rowsLoop line xs (i + 1) e (b @ l) = Inr s"
      using "1.prems" by (intro "1.IH" [OF True r l]) simp_all
    with True r l show ?thesis by (subst rowsLoop.simps) simp
  qed
qed

lemma truncate_total: "0 \<le> lim \<Longrightarrow> \<exists>t. truncate s lim = Inr t"
  by (simp add: truncate_def)

lemma connectionLine_total: "\<exists>s. connectionLine L m i c = Inr s"
proof -
  obtain a where a: "truncate (local c) 21 = Inr a" using truncate_total [of 21] by auto
  obtain b where b: "truncate (remote c) 21 = Inr b" using truncate_total [of 21] by auto
  obtain d where d: "truncate (connection.process c) 15 = Inr d" using truncate_total [of 15] by auto
  show ?thesis by (simp add: connectionLine_def bindR_def a b d)
qed

lemma portLine_total: "\<exists>s. portLine L m i p = Inr s"
proof -
  obtain d where d: "truncate (port.process p) 20 = Inr d" using truncate_total [of 20] by auto
  show ?thesis by (simp add: portLine_def bindR_def d Let_def)
qed
lemma formatBytes_total: "\<exists>s. formatBytes b = Inr s"
proof (cases "b < 1024")
  case True
  then show ?thesis by (simp add: formatBytes_small)
next
  case False
  then have "1024 \<le> b" by simp
  from formatBytes_scaled [OF this] show ?thesis by blast
qed

lemma ifaceLine_total: "\<exists>s. ifaceLine L m i ifc = Inr s"
proof -
  obtain a where a: "truncate (case addrs ifc of [] \<Rightarrow> ''-'' | a # rest \<Rightarrow> a) 22 = Inr a"
    using truncate_total [of 22] by auto
  obtain r where r: "formatBytes (rx ifc) = Inr r" using formatBytes_total by blast
  obtain t where t: "formatBytes (tx ifc) = Inr t" using formatBytes_total by blast
  show ?thesis by (simp add: ifaceLine_def bindR_def a r t Let_def)
qed

lemma visible_rows_in_range:
  assumes "0 \<le> cursor m" "0 \<le> offset m" "\<And>j x. \<exists>s. line j x = Inr s"
  shows "\<exists>s. rowsLoop line xs (fst (visibleRange (adjustOffset m p) (int (length xs)) p))
                (snd (visibleRange (adjustOffset m p) (int (length xs)) p)) b = Inr s"
proof (rule rowsLoop_in_range)
  show "0 \<le> fst (visibleRange (adjustOffset m p) (int (length xs)) p)"
    using adjustOffset_nonneg [OF assms(1,2)] by (simp add: visibleRange_def)
  show "snd (visibleRange (adjustOffset m p) (int (length xs)) p) \<le> int (length xs)"
    by (simp add: visibleRange_def)
  show "\<And>j x. \<exists>s. line j x = Inr s" by (rule assms(3))
qed

lemma View_total:
  assumes "0 \<le> cursor m" "0 \<le> offset m"
  shows "\<exists>s. View L now m = Inr s"
proof -
  let ?h = "contentHeight m"
  let ?m' = "adjustOffset m (?h - 1)"
  have c: "\<exists>s. fst (viewConnections L m ?h) = Inr s"
  proof -
    from visible_rows_in_range [OF assms, of "connectionLine L ?m'" "model.connections m" "?h - 1"]
      connectionLine_total
    obtain s where "rowsLoop (connectionLine L ?m') (model.connections m)
        (fst (visibleRange ?m' (int (length (model.connections m))) (?h - 1)))
        (snd (visibleRange ?m' (int (length (model.connections m))) (?h - 1)))
        (header L (padRight (runeCount L) 7 ''PROTO'' @ '' '' @ padRight (runeCount L) 21 ''LOCAL'' @ '' ''
               @ padRight (runeCount L) 21 ''REMOTE'' @ '' '' @ padRight (runeCount L) 11 ''STATE''
               @ '' '' @ ''PROCESS'') @ nl) = Inr s"
      by blast
    then show ?thesis by (simp add: viewConnections_def Let_def bindR_def)
  qed
  have p: "\<exists>s. fst (viewPorts L m ?h) = Inr s"
  proof -
    from visible_rows_in_range [OF assms, of "portLine L ?m'" "model.ports m" "?h - 1"]
      portLine_total
    obtain s where "rowsLoop (portLine L ?m') (model.ports m)
        (fst (visibleRange ?m' (int (length (model.ports m))) (?h - 1)))
        (snd (visibleRange ?m' (int (length (model.ports m))) (?h - 1)))
        (header L (padRight (runeCount L) 7 ''PORT'' @ '' '' @ padRight (runeCount L) 7 ''PROTO'' @ '' ''
               @ padRight (runeCount L) 16 ''ADDRESS'' @ '' '' @ padRight (runeCount L) 8 ''PID''
               @ '' '' @ ''PROCESS'') @ nl) = Inr s"
      by blast
    then show ?thesis by (simp add: viewPorts_def Let_def bindR_def)
  qed
  have i: "\<exists>s. fst (viewInterfaces L m ?h) = Inr s"
  proof -
    from visible_rows_in_range [OF assms, of "ifaceLine L ?m'" "model.interfaces m" "?h - 1"]
      ifaceLine_total
    obtain s where "rowsLoop (ifaceLine L ?m') (model.interfaces m)
        (fst (visibleRange ?m' (int (length (model.interfaces m))) (?h - 1)))
        (snd (visibleRange ?m' (int (length (model.interfaces m))) (?h - 1)))
        (header L (padRight (runeCount L) 12 ''NAME'' @ '' '' @ padRight (runeCount L) 6 ''STATE'' @ '' ''
               @ padRight (runeCount L) 22 ''ADDRESS'' @ '' '' @ padRight (runeCount L) 12 ''RX''
               @ '' '' @ ''TX'') @ nl) = Inr s"
      by blast
    then show ?thesis by (simp add: viewInterfaces_def Let_def bindR_def)
  qed
  from c p i have "\<exists>s. viewContent L m = Inr s" by (simp add: viewContent_def Let_def)
  then show ?thesis by (auto simp: View_def bindR_def)
qed

lemma run_resize_jump_end:
  "run newModel [WindowSizeMsg 80 24, KeyMsg ''G''] = newModel\<lparr>cursor := - 1, width := 80, height := 24\<rparr>"
  by code_simp


text \<open>
  Claim C10, at the input where the code departs from it. After a resize to 80 by 24
  and jump-end on the still empty connection list the cursor is \<open>-1\<close>;
  \<open>adjustOffset\<close> follows it with the offset, the visible range is \<open>[-1, 0)\<close>, and the
  row loop reads \<open>m.connections[-1]\<close>: the render panics, whatever the styles and the
  clock. In every state with \<open>0 \<le> cursor\<close> and \<open>0 \<le> offset\<close> the three loops stay
  within the list (\<open>View_total\<close>), and every reachable state has offset 0 and
  \<open>cursor \<ge> -1\<close> (\<open>reachable_invariant\<close>).
\<close>

theorem View_panics_after_jump_end:
  "run newModel [WindowSizeMsg 80 24, KeyMsg ''G'']
     = newModel\<lparr>cursor := - 1, width := 80, height := 24\<rparr>
   \<and> View L now (run newModel [WindowSizeMsg 80 24, KeyMsg ''G'']) = Inl IndexOutOfRange"
  unfolding run_resize_jump_end
  by (simp add: View_def viewContent_def contentHeight_def viewConnections_def adjustOffset_def
      visibleRange_def rowsLoop.simps bindR_def newModel_def tabConnections_def Let_def)


end
